theory Spec2Isabelle
  imports Complex_Main "HOL-Library.Product_Lexorder"
begin

section \<open>Python strings\<close>

text \<open>
  A Python \<open>str\<close> is modelled as a \<^typ>\<open>string\<close>, one \<^typ>\<open>char\<close> per code point, so the
  model covers the texts whose code points are below 256. The character classes are
  those of CPython on that range: \<open>str.isspace\<close> (used by \<open>strip\<close>, \<open>split\<close> and the
  pattern class \<open>\s\<close>), the decimal digits (\<open>\d\<close>), the alphanumerics and the
  underscore (\<open>\w\<close>), and the line boundaries of \<open>str.splitlines\<close>.
\<close>

definition is_space :: "char \<Rightarrow> bool" where
  "is_space c = (c \<in> set [CHR 0x09, CHR 0x0A, CHR 0x0B, CHR 0x0C, CHR 0x0D, CHR 0x1C,
                            CHR 0x1D, CHR 0x1E, CHR 0x1F, CHR 0x20, CHR 0x85, CHR 0xA0])"

definition is_digit :: "char \<Rightarrow> bool" where
  "is_digit c = (c \<in> set ''0123456789'')"

definition is_word :: "char \<Rightarrow> bool" where
  "is_word c =
     (let n = (of_char c :: nat)
      in (48 \<le> n \<and> n \<le> 57) \<or> (65 \<le> n \<and> n \<le> 90) \<or> n = 95 \<or> (97 \<le> n \<and> n \<le> 122)
         \<or> n = 170 \<or> n = 178 \<or> n = 179 \<or> n = 181 \<or> n = 185 \<or> n = 186
         \<or> n = 188 \<or> n = 189 \<or> n = 190
         \<or> (192 \<le> n \<and> n \<le> 214) \<or> (216 \<le> n \<and> n \<le> 246) \<or> 248 \<le> n)"

definition is_linebreak :: "char \<Rightarrow> bool" where
  "is_linebreak c =
     (c \<in> set [CHR 0x0A, CHR 0x0B, CHR 0x0C, CHR 0x0D, CHR 0x1C, CHR 0x1D, CHR 0x1E, CHR 0x85])"

text \<open>\<open>s.startswith(p)\<close>.\<close>

fun startswith :: "string \<Rightarrow> string \<Rightarrow> bool" where
  "startswith s [] = True"
| "startswith [] (p # ps) = False"
| "startswith (x # xs) (p # ps) = (x = p \<and> startswith xs ps)"

text \<open>\<open>s.strip()\<close>: leading and trailing whitespace removed.\<close>

definition py_strip :: "string \<Rightarrow> string" where
  "py_strip s = rev (dropWhile is_space (rev (dropWhile is_space s)))"

text \<open>
  \<open>s.split()\<close>: the maximal runs of non-whitespace characters. The first argument is the
  token being read.
\<close>

fun split_from :: "string \<Rightarrow> string \<Rightarrow> string list" where
  "split_from cur [] = (if cur = [] then [] else [cur])"
| "split_from cur (x # xs) =
     (if is_space x then (if cur = [] then split_from [] xs else cur # split_from [] xs)
      else split_from (cur @ [x]) xs)"

definition py_split :: "string \<Rightarrow> string list" where
  "py_split s = split_from [] s"

text \<open>
  \<open>s.splitlines()\<close>: the text is cut at every line boundary, \<open>\r\n\<close> counting as one,
  and no empty last line is produced.
\<close>

fun splitlines_from :: "string \<Rightarrow> string \<Rightarrow> string list" where
  "splitlines_from cur [] = (if cur = [] then [] else [cur])"
| "splitlines_from cur (x # xs) =
     (if x = CHR 0x0D then
        (case xs of
           [] \<Rightarrow> [cur]
         | y # ys \<Rightarrow> if y = CHR 0x0A then cur # splitlines_from [] ys
                     else cur # splitlines_from [] xs)
      else if is_linebreak x then cur # splitlines_from [] xs
      else splitlines_from (cur @ [x]) xs)"

definition splitlines :: "string \<Rightarrow> string list" where
  "splitlines s = splitlines_from [] s"

text \<open>
  \<open>s.replace(old, new)\<close>: the occurrences of \<open>old\<close> are replaced from the left, without
  overlap. With an empty \<open>old\<close> Python inserts \<open>new\<close> before every character and at
  the end.
\<close>

fun replace_from :: "string \<Rightarrow> string \<Rightarrow> string \<Rightarrow> string" where
  "replace_from [] old new = []"
| "replace_from (x # xs) old new =
     (if old \<noteq> [] \<and> startswith (x # xs) old
      then new @ replace_from (drop (length old - 1) xs) old new
      else x # replace_from xs old new)"

definition py_replace :: "string \<Rightarrow> string \<Rightarrow> string \<Rightarrow> string" where
  "py_replace s old new =
     (if old = [] then new @ concat (map (\<lambda>c. c # new) s) else replace_from s old new)"

text \<open>\<open>s.lower()\<close> on the code points below 256.\<close>

definition lower_char :: "char \<Rightarrow> char" where
  "lower_char c =
     (let n = (of_char c :: nat)
      in if (65 \<le> n \<and> n \<le> 90) \<or> (192 \<le> n \<and> n \<le> 214) \<or> (216 \<le> n \<and> n \<le> 222)
         then char_of (n + 32) else c)"

definition py_lower :: "string \<Rightarrow> string" where
  "py_lower s = map lower_char s"

text \<open>\<open>str(n)\<close> and \<open>int(s)\<close> for decimal numerals.\<close>

definition digit_char :: "nat \<Rightarrow> char" where
  "digit_char d = ''0123456789'' ! d"

function str_nat :: "nat \<Rightarrow> string" where
  "str_nat n = (if n < 10 then [digit_char n] else str_nat (n div 10) @ [digit_char (n mod 10)])"
  by pat_completeness auto
termination
  by (relation "measure id") auto

declare str_nat.simps [simp del]

definition str_int :: "int \<Rightarrow> string" where
  "str_int i = (if i < 0 then ''-'' @ str_nat (nat (- i)) else str_nat (nat i))"

definition digit_val :: "char \<Rightarrow> nat" where
  "digit_val c = of_char c - 48"

definition int_of_digits :: "string \<Rightarrow> nat" where
  "int_of_digits s = foldl (\<lambda>acc c. 10 * acc + digit_val c) 0 s"


section \<open>Patterns\<close>

text \<open>
  The patterns of the handler are sequences of literals, one-character classes under
  \<open>+\<close>, \<open>*\<close> and the lazy \<open>+?\<close>, capture groups that do not nest, and one alternation of
  literals. \<open>re.match\<close> anchors the pattern at the start of the string and accepts any
  rest; it explores the alternatives in the order of a backtracking matcher (a greedy
  quantifier takes the longest run first, a lazy one the shortest) and returns the
  groups of the first success.
\<close>

datatype cclass = Space | Digit | Word | Dot | NotQuote | DigitDot

fun in_class :: "cclass \<Rightarrow> char \<Rightarrow> bool" where
  "in_class Space c = is_space c"
| "in_class Digit c = is_digit c"
| "in_class Word c = is_word c"
| "in_class Dot c = (c \<noteq> CHR 0x0A)"
| "in_class NotQuote c = (c \<noteq> CHR 0x22)"
| "in_class DigitDot c = (is_digit c \<or> c = CHR ''.'')"

datatype rx =
    Lit string
  | Plus cclass
  | Star cclass
  | LazyPlus cclass
  | LazyStar cclass
  | Alt "string list"
  | GOpen
  | GClose

text \<open>
  The captures: the groups already closed, and the text of the group being read.
\<close>

type_synonym caps = "string list \<times> string option"

fun push :: "string \<Rightarrow> caps \<Rightarrow> caps" where
  "push t (done, None) = (done, None)"
| "push t (done, Some cur) = (done, Some (cur @ t))"

text \<open>The termination measure of the matcher: an alternation weighs more than any of its branches.\<close>

fun rx_weight :: "rx \<Rightarrow> nat" where
  "rx_weight (Alt as) = length as + 2"
| "rx_weight r = 1"

function (sequential) rx_match :: "rx list \<Rightarrow> string \<Rightarrow> caps \<Rightarrow> string list option" where
  "rx_match [] s (done, cur) = Some done"
| "rx_match (Lit l # rs) s c =
     (if startswith s l then rx_match rs (drop (length l) s) (push l c) else None)"
| "rx_match (GOpen # rs) s (done, cur) = rx_match rs s (done, Some [])"
| "rx_match (GClose # rs) s (done, cur) =
     rx_match rs s (done @ [case cur of None \<Rightarrow> [] | Some t \<Rightarrow> t], None)"
| "rx_match (Alt [] # rs) s c = None"
| "rx_match (Alt (a # as) # rs) s c =
     (case rx_match (Lit a # rs) s c of
        Some r \<Rightarrow> Some r
      | None \<Rightarrow> rx_match (Alt as # rs) s c)"
| "rx_match (Plus k # rs) [] c = None"
| "rx_match (Plus k # rs) (x # xs) c =
     (if in_class k x then rx_match (Star k # rs) xs (push [x] c) else None)"
| "rx_match (Star k # rs) [] c = rx_match rs [] c"
| "rx_match (Star k # rs) (x # xs) c =
     (if in_class k x then
        (case rx_match (Star k # rs) xs (push [x] c) of
           Some r \<Rightarrow> Some r
         | None \<Rightarrow> rx_match rs (x # xs) c)
      else rx_match rs (x # xs) c)"
| "rx_match (LazyPlus k # rs) [] c = None"
| "rx_match (LazyPlus k # rs) (x # xs) c =
     (if in_class k x then rx_match (LazyStar k # rs) xs (push [x] c) else None)"
| "rx_match (LazyStar k # rs) [] c = rx_match rs [] c"
| "rx_match (LazyStar k # rs) (x # xs) c =
     (case rx_match rs (x # xs) c of
        Some r \<Rightarrow> Some r
      | None \<Rightarrow> if in_class k x then rx_match (LazyStar k # rs) xs (push [x] c) else None)"
  by pat_completeness auto
termination
  by (relation "measures [\<lambda>(rs, s, c). sum_list (map rx_weight rs), \<lambda>(rs, s, c). length s]") auto

text \<open>\<open>re.match(pattern, s)\<close>: \<open>None\<close>, or the groups; \<open>m.group(i)\<close>.\<close>

definition re_match :: "rx list \<Rightarrow> string \<Rightarrow> string list option" where
  "re_match pat s = rx_match pat s ([], None)"

definition group :: "string list \<Rightarrow> nat \<Rightarrow> string" where
  "group gs i = gs ! (i - 1)"

text \<open>\<open>re.findall(r'\w+', s)\<close>: the maximal runs of word characters, from the left.\<close>

fun findall_words_from :: "string \<Rightarrow> string \<Rightarrow> string list" where
  "findall_words_from cur [] = (if cur = [] then [] else [cur])"
| "findall_words_from cur (x # xs) =
     (if is_word x then findall_words_from (cur @ [x]) xs
      else if cur = [] then findall_words_from [] xs
      else cur # findall_words_from [] xs)"

definition findall_words :: "string \<Rightarrow> string list" where
  "findall_words s = findall_words_from [] s"


section \<open>Values, results and exceptions\<close>

text \<open>
  The values that travel between the browser, the variable store and the report: JSON-like
  values. A float is held by its exact value (every finite double is a rational).
  A dict is an association list in insertion order with one entry per key.
\<close>

datatype jval =
    JNull
  | JBool bool
  | JInt int
  | JNum rat
  | JStr string
  | JList "jval list"
  | JDict "(string \<times> jval) list"

type_synonym dict = "(string \<times> jval) list"

text \<open>\<open>d[k] = v\<close>: an existing key keeps its position.\<close>

fun dict_set :: "string \<Rightarrow> jval \<Rightarrow> dict \<Rightarrow> dict" where
  "dict_set k v [] = [(k, v)]"
| "dict_set k v ((k', v') # d) = (if k = k' then (k, v) # d else (k', v') # dict_set k v d)"

text \<open>A dict display \<open>{k1: v1, k2: v2, ...}\<close>, and \<open>{..., **res}\<close> by appending the pairs of \<open>res\<close>.\<close>

definition dict_lit :: "(string \<times> jval) list \<Rightarrow> dict" where
  "dict_lit kvs = foldl (\<lambda>d (k, v). dict_set k v d) [] kvs"

text \<open>\<open>d.get(k)\<close>; \<open>None\<close> is an absent key.\<close>

definition dict_get :: "dict \<Rightarrow> string \<Rightarrow> jval option" where
  "dict_get d k = map_of d k"

text \<open>Truth value of a Python object in a condition.\<close>

fun truthy :: "jval \<Rightarrow> bool" where
  "truthy JNull = False"
| "truthy (JBool b) = b"
| "truthy (JInt i) = (i \<noteq> 0)"
| "truthy (JNum q) = (q \<noteq> 0)"
| "truthy (JStr s) = (s \<noteq> [])"
| "truthy (JList xs) = (xs \<noteq> [])"
| "truthy (JDict d) = (d \<noteq> [])"

text \<open>An optional string as a value, and as Python prints it inside an f-string.\<close>

definition jopt :: "string option \<Rightarrow> jval" where
  "jopt v = (case v of None \<Rightarrow> JNull | Some s \<Rightarrow> JStr s)"

definition str_opt :: "string option \<Rightarrow> string" where
  "str_opt v = (case v of None \<Rightarrow> ''None'' | Some s \<Rightarrow> s)"

text \<open>The errors of the browser engine: its timeout error is a subclass of its error.\<close>

datatype perr = PlaywrightError string | PlaywrightTimeoutError string

fun perr_str :: "perr \<Rightarrow> string" where
  "perr_str (PlaywrightError m) = m"
| "perr_str (PlaywrightTimeoutError m) = m"

text \<open>The exceptions that occur in the handler.\<close>

datatype exn =
    AssertionError string
  | ValueError string
  | UnboundLocalError string
  | IndexError string
  | AttributeError string
  | TypeError string
  | ReError string
  | OSError string
  | Playwright perr

text \<open>The three shapes of Step Result that the command handlers build.\<close>

definition pass_result :: "string \<Rightarrow> dict" where
  "pass_result line = dict_lit [(''step'', JStr line), (''status'', JStr ''PASS''), (''error'', JNull)]"

definition fail_result :: "string \<Rightarrow> string \<Rightarrow> dict" where
  "fail_result line msg =
     dict_lit [(''step'', JStr line), (''status'', JStr ''FAIL''), (''error'', JStr msg)]"

definition syntax_error :: "string \<Rightarrow> string \<Rightarrow> dict" where
  "syntax_error line msg =
     dict_lit [(''step'', JStr line), (''status'', JStr ''SYNTAX_ERROR''), (''error'', JStr msg)]"


section \<open>The browser engine and the session\<close>

text \<open>
  A navigation response: its status, its headers and its request; a request knows the
  request it was redirected from.
\<close>

datatype request = Request (req_url: string) (redirected_from: "request option")

record response =
  resp_status :: int
  resp_headers :: dict
  resp_request :: request

text \<open>
  The browser engine is an external collaborator: each call takes the state of the browser
  (of an arbitrary type \<open>'b\<close>) and returns its answer, or the error it raises, with the
  next state. The fields are the calls the handler makes; timeouts are fixed arguments of
  the source and not repeated here. The clock and the file system that the snapshot needs
  are part of the same outside world.
\<close>

record 'b engine =
  pw_goto :: "string \<Rightarrow> 'b \<Rightarrow> (perr + response option) \<times> 'b"
  pw_navigation_timing :: "'b \<Rightarrow> (perr + jval) \<times> 'b"
  pw_title :: "'b \<Rightarrow> (perr + string) \<times> 'b"
  pw_url :: "'b \<Rightarrow> string"
  pw_evaluate :: "string \<Rightarrow> 'b \<Rightarrow> (perr + jval) \<times> 'b"
  pw_layout_shift :: "'b \<Rightarrow> (perr + jval) \<times> 'b"
  pw_visible_text :: "string \<Rightarrow> 'b \<Rightarrow> (perr + string) \<times> 'b"
  pw_click :: "string \<Rightarrow> 'b \<Rightarrow> (perr + unit) \<times> 'b"
  pw_fill :: "string \<Rightarrow> string \<Rightarrow> 'b \<Rightarrow> (perr + unit) \<times> 'b"
  pw_press :: "string \<Rightarrow> string \<Rightarrow> 'b \<Rightarrow> (perr + unit) \<times> 'b"
  pw_wait_for_load_state :: "'b \<Rightarrow> (perr + unit) \<times> 'b"
  pw_wait_for_selector :: "string \<Rightarrow> 'b \<Rightarrow> (perr + unit) \<times> 'b"
  pw_scroll_into_view :: "string \<Rightarrow> 'b \<Rightarrow> (perr + unit) \<times> 'b"
  pw_cookies :: "'b \<Rightarrow> (perr + (string \<times> string) list) \<times> 'b"
  pw_set_viewport_size :: "nat \<Rightarrow> nat \<Rightarrow> 'b \<Rightarrow> (perr + unit) \<times> 'b"
  pw_count :: "string \<Rightarrow> 'b \<Rightarrow> (perr + nat) \<times> 'b"
  pw_is_visible :: "string \<Rightarrow> 'b \<Rightarrow> (perr + bool) \<times> 'b"
  pw_nth_is_visible :: "string \<Rightarrow> nat \<Rightarrow> 'b \<Rightarrow> (perr + bool) \<times> 'b"
  pw_get_attribute :: "string \<Rightarrow> string \<Rightarrow> 'b \<Rightarrow> (perr + string option) \<times> 'b"
  pw_nth_get_attribute :: "string \<Rightarrow> nat \<Rightarrow> string \<Rightarrow> 'b \<Rightarrow> (perr + string option) \<times> 'b"
  pw_first_get_attribute :: "string \<Rightarrow> string \<Rightarrow> 'b \<Rightarrow> (perr + string option) \<times> 'b"
  pw_content :: "'b \<Rightarrow> (perr + string) \<times> 'b"
  pw_screenshot :: "string \<Rightarrow> 'b \<Rightarrow> (perr + unit) \<times> 'b"
  fs_write_text :: "string \<Rightarrow> string \<Rightarrow> 'b \<Rightarrow> (string + unit) \<times> 'b"
  clock_ms :: "'b \<Rightarrow> nat"

text \<open>
  What the source takes from outside its own text: the table \<open>http.client.responses\<close>,
  two literals whose code points are above 255 (the separator of the redirect chain and
  the sign in the threshold messages), Python's float conversions and formats, and
  \<open>re.match\<close> on a pattern that the script supplies (\<open>None\<close> when the pattern does not
  compile).
\<close>

record env =
  http_reasons :: "int \<Rightarrow> string option"
  arrow :: string
  geq_sign :: string
  py_float :: "string \<Rightarrow> rat option"
  to_double :: "rat \<Rightarrow> rat"
  fmt_2f :: "rat \<Rightarrow> string"
  str_float :: "rat \<Rightarrow> string"
  user_re_match :: "string \<Rightarrow> string \<Rightarrow> bool option"

text \<open>
  The session: the browser, and the two attributes that the handler attaches to the page
  object, each absent until first written.
\<close>

record 'b page =
  bstate :: 'b
  last_response :: "response option"
  vars :: "dict option"

text \<open>\<open>wait_after_action\<close>: two idle waits whose errors are ignored (the pause is not modelled).\<close>

definition wait_after_action :: "'b engine \<Rightarrow> 'b \<Rightarrow> 'b" where
  "wait_after_action B b = snd (pw_wait_for_load_state B (snd (pw_wait_for_load_state B b)))"

text \<open>\<open>get_redirect_chain\<close>.\<close>

fun redirect_loop :: "string \<Rightarrow> request \<Rightarrow> string list \<Rightarrow> string list" where
  "redirect_loop sep (Request u None) chain = chain"
| "redirect_loop sep (Request u (Some prev)) chain =
     redirect_loop sep prev (chain @ [req_url prev @ sep @ u])"

definition get_redirect_chain :: "env \<Rightarrow> response \<Rightarrow> string list" where
  "get_redirect_chain E response = rev (redirect_loop (arrow E) (resp_request response) [])"


section \<open>Command handlers\<close>

text \<open>
  A handler takes the session and the line and returns the Step Result with the session
  after the step, or the exception that leaves the handler uncaught.
\<close>

type_synonym 'b handler = "'b page \<Rightarrow> string \<Rightarrow> exn + (dict \<times> 'b page)"

text \<open>The shape \<open>KEYWORD\s+"(.+?)"\<close> of Goto, Click, WaitFor and ScrollTo.\<close>

definition quoted_rx :: "string \<Rightarrow> rx list" where
  \<open>quoted_rx kw = [Lit kw, Plus Space, Lit ''"'', GOpen, LazyPlus Dot, GClose, Lit ''"'']\<close>

text \<open>The shape \<open>KEYWORD\s+"(.+?)"\s+WORD\s+"(.+?)"\<close> of Fill, FillAuto and AssertCookie.\<close>

definition quoted2_rx :: "string \<Rightarrow> string \<Rightarrow> rx list" where
  \<open>quoted2_rx kw w =
     [Lit kw, Plus Space, Lit ''"'', GOpen, LazyPlus Dot, GClose, Lit ''"'',
      Plus Space, Lit w, Plus Space, Lit ''"'', GOpen, LazyPlus Dot, GClose, Lit ''"'']\<close>

text \<open>\<open>Viewport\s+(\d+)x(\d+)\<close>.\<close>

definition viewport_rx :: "rx list" where
  "viewport_rx =
     [Lit ''Viewport'', Plus Space, GOpen, Plus Digit, GClose, Lit ''x'', GOpen, Plus Digit, GClose]"

text \<open>\<open>SetVar\s+"(.+?)"\s*=\s*(.+)\<close>.\<close>

definition setvar_rx :: "rx list" where
  \<open>setvar_rx =
     [Lit ''SetVar'', Plus Space, Lit ''"'', GOpen, LazyPlus Dot, GClose, Lit ''"'',
      Star Space, Lit ''='', Star Space, GOpen, Plus Dot, GClose]\<close>

definition handle_goto :: "'b engine \<Rightarrow> env \<Rightarrow> 'b handler" where
  "handle_goto B E p line =
     (case re_match (quoted_rx ''Goto'') line of
        None \<Rightarrow> Inr (syntax_error line ''Malformed Goto'', p)
      | Some gs \<Rightarrow>
          (case pw_goto B (group gs 1) (bstate p) of
             (Inl e, b1) \<Rightarrow> Inr (fail_result line (perr_str e), p\<lparr>bstate := b1\<rparr>)
           | (Inr None, b1) \<Rightarrow> Inl (AttributeError ''status'')
           | (Inr (Some response), b1) \<Rightarrow>
               (let status_code = resp_status response;
                    status_text = (case http_reasons E status_code of None \<Rightarrow> [] | Some t \<Rightarrow> t);
                    headers = resp_headers response
                in case pw_navigation_timing B b1 of
                     (Inl e, b2) \<Rightarrow> Inl (Playwright e)
                   | (Inr perf, b2) \<Rightarrow>
                       (case pw_title B b2 of
                          (Inl e, b3) \<Rightarrow> Inl (Playwright e)
                        | (Inr title, b3) \<Rightarrow>
                            Inr (dict_lit
                                   [(''step'', JStr line),
                                    (''status'', JStr (if status_code < 400 then ''PASS'' else ''FAIL'')),
                                    (''error'',
                                       if status_code < 400 then JNull
                                       else JStr (''HTTP '' @ str_int status_code @ '' '' @ status_text)),
                                    (''status_code'', JInt status_code),
                                    (''status_text'', JStr status_text),
                                    (''redirect_chain'', JList (map JStr (get_redirect_chain E response))),
                                    (''headers'', JDict headers),
                                    (''page_title'', JStr title),
                                    (''timing'', perf)],
                                 p\<lparr>bstate := b3, last_response := Some response\<rparr>)))))"

definition handle_click :: "'b engine \<Rightarrow> 'b handler" where
  "handle_click B p line =
     (case re_match (quoted_rx ''Click'') line of
        None \<Rightarrow> Inr (syntax_error line ''Malformed Click'', p)
      | Some gs \<Rightarrow>
          (case pw_click B (group gs 1) (bstate p) of
             (Inl e, b1) \<Rightarrow> Inr (fail_result line (perr_str e), p\<lparr>bstate := b1\<rparr>)
           | (Inr u, b1) \<Rightarrow> Inr (pass_result line, p\<lparr>bstate := wait_after_action B b1\<rparr>)))"

definition handle_fill :: "'b engine \<Rightarrow> 'b handler" where
  "handle_fill B p line =
     (case re_match (quoted2_rx ''Fill'' ''with'') line of
        None \<Rightarrow> Inr (syntax_error line ''Malformed Fill'', p)
      | Some gs \<Rightarrow>
          (case pw_fill B (group gs 1) (group gs 2) (bstate p) of
             (Inl e, b1) \<Rightarrow> Inr (fail_result line (perr_str e), p\<lparr>bstate := b1\<rparr>)
           | (Inr u, b1) \<Rightarrow> Inr (pass_result line, p\<lparr>bstate := wait_after_action B b1\<rparr>)))"

definition handle_fillauto :: "'b engine \<Rightarrow> 'b handler" where
  "handle_fillauto B p line =
     (case re_match (quoted2_rx ''FillAuto'' ''with'') line of
        None \<Rightarrow> Inr (syntax_error line ''Malformed FillAuto'', p)
      | Some gs \<Rightarrow>
          (case pw_fill B (group gs 1) (group gs 2) (bstate p) of
             (Inl e, b1) \<Rightarrow> Inr (fail_result line (perr_str e), p\<lparr>bstate := b1\<rparr>)
           | (Inr u, b1) \<Rightarrow>
               (case pw_press B (group gs 1) ''Enter'' b1 of
                  (Inl e, b2) \<Rightarrow> Inr (fail_result line (perr_str e), p\<lparr>bstate := b2\<rparr>)
                | (Inr u, b2) \<Rightarrow>
                    Inr (pass_result line, p\<lparr>bstate := wait_after_action B b2\<rparr>))))"

definition handle_waitfor :: "'b engine \<Rightarrow> 'b handler" where
  "handle_waitfor B p line =
     (case re_match (quoted_rx ''WaitFor'') line of
        None \<Rightarrow> Inr (syntax_error line ''Malformed WaitFor'', p)
      | Some gs \<Rightarrow>
          (case pw_wait_for_selector B (group gs 1) (bstate p) of
             (Inl e, b1) \<Rightarrow> Inr (fail_result line (perr_str e), p\<lparr>bstate := b1\<rparr>)
           | (Inr u, b1) \<Rightarrow> Inr (pass_result line, p\<lparr>bstate := b1\<rparr>)))"

definition handle_scrollto :: "'b engine \<Rightarrow> 'b handler" where
  "handle_scrollto B p line =
     (case re_match (quoted_rx ''ScrollTo'') line of
        None \<Rightarrow> Inr (syntax_error line ''Malformed ScrollTo'', p)
      | Some gs \<Rightarrow>
          (case pw_scroll_into_view B (group gs 1) (bstate p) of
             (Inl e, b1) \<Rightarrow> Inr (fail_result line (perr_str e), p\<lparr>bstate := b1\<rparr>)
           | (Inr u, b1) \<Rightarrow> Inr (pass_result line, p\<lparr>bstate := b1\<rparr>)))"

text \<open>
  AssertCookie: the first cookie of that name, and the \<open>assert\<close> whose message names the
  value found (\<open>None\<close> when there is no such cookie).
\<close>

definition handle_assertcookie :: "'b engine \<Rightarrow> 'b handler" where
  "handle_assertcookie B p line =
     (case re_match (quoted2_rx ''AssertCookie'' ''is'') line of
        None \<Rightarrow> Inr (syntax_error line ''Malformed AssertCookie'', p)
      | Some gs \<Rightarrow>
          (let name = group gs 1; val = group gs 2
           in case pw_cookies B (bstate p) of
                (Inl e, b1) \<Rightarrow> Inr (fail_result line (perr_str e), p\<lparr>bstate := b1\<rparr>)
              | (Inr cookies, b1) \<Rightarrow>
                  (let ck = map_of cookies name
                   in if ck = Some val then Inr (pass_result line, p\<lparr>bstate := b1\<rparr>)
                      else Inr (fail_result line
                                  (''Cookie '' @ name @ '' has value '' @ str_opt ck
                                     @ '', expected '' @ val),
                                p\<lparr>bstate := b1\<rparr>))))"

definition handle_viewport :: "'b engine \<Rightarrow> 'b handler" where
  "handle_viewport B p line =
     (case re_match viewport_rx line of
        None \<Rightarrow> Inr (syntax_error line ''Malformed Viewport'', p)
      | Some gs \<Rightarrow>
          (let w = int_of_digits (group gs 1); h = int_of_digits (group gs 2)
           in case pw_set_viewport_size B w h (bstate p) of
                (Inl e, b1) \<Rightarrow> Inr (fail_result line (perr_str e), p\<lparr>bstate := b1\<rparr>)
              | (Inr u, b1) \<Rightarrow> Inr (pass_result line, p\<lparr>bstate := b1\<rparr>)))"

text \<open>The stubs of the commands that are not implemented.\<close>

definition handle_waitforpopup :: "'b handler" where
  "handle_waitforpopup p line = Inr (fail_result line ''Not implemented: WaitForPopup'', p)"

definition handle_switchtopopup :: "'b handler" where
  "handle_switchtopopup p line = Inr (fail_result line ''Not implemented: SwitchToPopup'', p)"

definition handle_closepopup :: "'b handler" where
  "handle_closepopup p line = Inr (fail_result line ''Not implemented: ClosePopup'', p)"

definition handle_switchtoiframe :: "'b handler" where
  "handle_switchtoiframe p line = Inr (fail_result line ''Not implemented: SwitchToIFrame'', p)"

definition handle_returnfromiframe :: "'b handler" where
  "handle_returnfromiframe p line = Inr (fail_result line ''Not implemented: ReturnFromIFrame'', p)"

definition handle_savesession :: "'b handler" where
  "handle_savesession p line = Inr (fail_result line ''Not implemented: SaveSession'', p)"

definition handle_restoresession :: "'b handler" where
  "handle_restoresession p line = Inr (fail_result line ''Not implemented: RestoreSession'', p)"

definition handle_retry :: "'b handler" where
  "handle_retry p line = Inr (fail_result line ''Not implemented: Retry'', p)"

text \<open>
  SetVar: the expression is evaluated in the page and the value stored under the name;
  the result of a success is the dict display \<open>{"step": line, "status": "PASS", varname: val}\<close>.
\<close>

definition handle_setvar :: "'b engine \<Rightarrow> 'b handler" where
  "handle_setvar B p line =
     (case re_match setvar_rx line of
        None \<Rightarrow> Inr (syntax_error line ''Malformed SetVar'', p)
      | Some gs \<Rightarrow>
          (let varname = group gs 1; js_expr = group gs 2
           in case pw_evaluate B js_expr (bstate p) of
                (Inl e, b1) \<Rightarrow> Inr (fail_result line (perr_str e), p\<lparr>bstate := b1\<rparr>)
              | (Inr val, b1) \<Rightarrow>
                  Inr (dict_lit [(''step'', JStr line), (''status'', JStr ''PASS''), (varname, val)],
                       p\<lparr>bstate := b1,
                         vars := Some (dict_set varname val (case vars p of None \<Rightarrow> [] | Some d \<Rightarrow> d))\<rparr>)))"


section \<open>Similarity: the sequence matcher of the standard library\<close>

text \<open>
  \<open>similar(a, b)\<close> is \<open>SequenceMatcher(None, a, b).ratio()\<close>. The matcher is modelled
  after CPython's \<open>difflib\<close>, with no junk predicate and the automatic junk heuristic on:
  \<open>b2j\<close> maps an element to its positions in \<open>b\<close>, but an element that fills more than
  1 percent (plus one) of the positions of a \<open>b\<close> of 200 elements or more is \<open>popular\<close>
  and has no entry. Since the set of junk is empty, the two loops of
  \<open>find_longest_match\<close> that extend a match over junk never run.
\<close>


definition indices_of :: "'a \<Rightarrow> 'a list \<Rightarrow> nat list" where
  "indices_of x b = filter (\<lambda>j. b ! j = x) [0..<length b]"

definition popular :: "'a list \<Rightarrow> 'a \<Rightarrow> bool" where
  "popular b x = (200 \<le> length b \<and> length b div 100 + 1 < length (indices_of x b))"

definition b2j :: "'a list \<Rightarrow> 'a \<Rightarrow> nat list" where
  "b2j b x = (if popular b x then [] else indices_of x b)"

text \<open>A matching block \<open>(i, j, k)\<close>: \<open>a[i:i+k] == b[j:j+k]\<close>.\<close>

type_synonym block = "nat \<times> nat \<times> nat"

text \<open>
  The inner loop of \<open>find_longest_match\<close> over the positions \<open>j\<close> of \<open>a[i]\<close> in \<open>b\<close>:
  \<open>j2len\<close> gives the length of the longest match ending at \<open>a[i-1]\<close> and \<open>b[j]\<close>
  (\<open>0\<close> where the dict of the source has no key), \<open>newj2len\<close> the same for \<open>a[i]\<close>.
\<close>

fun inner_loop :: "(nat \<Rightarrow> nat) \<Rightarrow> nat \<Rightarrow> nat \<Rightarrow> nat \<Rightarrow> nat list \<Rightarrow> (nat \<Rightarrow> nat) \<times> block \<Rightarrow> (nat \<Rightarrow> nat) \<times> block" where
  "inner_loop j2len i blo bhi [] st = st"
| "inner_loop j2len i blo bhi (j # js) (newj2len, (besti, bestj, bestsize)) =
     (if j < blo then inner_loop j2len i blo bhi js (newj2len, (besti, bestj, bestsize))
      else if bhi \<le> j then (newj2len, (besti, bestj, bestsize))
      else (let k = (if j = 0 then 0 else j2len (j - 1)) + 1
            in inner_loop j2len i blo bhi js
                 (newj2len(j := k),
                  if bestsize < k then (i + 1 - k, j + 1 - k, k) else (besti, bestj, bestsize))))"

text \<open>The outer loop over \<open>i\<close> in \<open>range(alo, ahi)\<close>.\<close>

fun outer_loop :: "'a list \<Rightarrow> 'a list \<Rightarrow> nat \<Rightarrow> nat \<Rightarrow> nat list \<Rightarrow> (nat \<Rightarrow> nat) \<times> block \<Rightarrow> block" where
  "outer_loop a b blo bhi [] (j2len, best) = best"
| "outer_loop a b blo bhi (i # is) (j2len, best) =
     outer_loop a b blo bhi is (inner_loop j2len i blo bhi (b2j b (a ! i)) (\<lambda>j. 0, best))"

text \<open>The two loops that extend the best match by equal elements on each side.\<close>

function extend_left :: "'a list \<Rightarrow> 'a list \<Rightarrow> nat \<Rightarrow> nat \<Rightarrow> block \<Rightarrow> block" where
  "extend_left a b alo blo (besti, bestj, bestsize) =
     (if alo < besti \<and> blo < bestj \<and> a ! (besti - 1) = b ! (bestj - 1)
      then extend_left a b alo blo (besti - 1, bestj - 1, bestsize + 1)
      else (besti, bestj, bestsize))"
  by pat_completeness auto
termination
  by (relation "measure (\<lambda>(a, b, alo, blo, besti, bestj, bestsize). besti)") auto

function extend_right :: "'a list \<Rightarrow> 'a list \<Rightarrow> nat \<Rightarrow> nat \<Rightarrow> block \<Rightarrow> block" where
  "extend_right a b ahi bhi (besti, bestj, bestsize) =
     (if besti + bestsize < ahi \<and> bestj + bestsize < bhi
         \<and> a ! (besti + bestsize) = b ! (bestj + bestsize)
      then extend_right a b ahi bhi (besti, bestj, bestsize + 1)
      else (besti, bestj, bestsize))"
  by pat_completeness auto
termination
  by (relation "measure (\<lambda>(a, b, ahi, bhi, besti, bestj, bestsize). ahi - (besti + bestsize))") auto

declare extend_left.simps [simp del] extend_right.simps [simp del]

definition find_longest_match :: "'a list \<Rightarrow> 'a list \<Rightarrow> nat \<Rightarrow> nat \<Rightarrow> nat \<Rightarrow> nat \<Rightarrow> block" where
  "find_longest_match a b alo ahi blo bhi =
     extend_right a b ahi bhi
       (extend_left a b alo blo
          (outer_loop a b blo bhi [alo..<ahi] (\<lambda>j. 0, (alo, blo, 0))))"

text \<open>
  The match found lies in the range asked for, which is what makes the loop of
  \<open>get_matching_blocks\<close> terminate.
\<close>

lemma inner_bounds:
  assumes "\<forall>j. j2len j \<le> i - alo" "alo \<le> i"
    and "alo \<le> bi" "bs = 0 \<longrightarrow> bi = alo" "bi + bs \<le> i + 1 \<or> bs = 0"
    and "\<forall>j. new j \<le> i + 1 - alo"
    and "inner_loop j2len i blo bhi js (new, (bi, bj, bs)) = (new', (bi', bj', bs'))"
  shows "(\<forall>j. new' j \<le> i + 1 - alo) \<and> alo \<le> bi' \<and> (bs' = 0 \<longrightarrow> bi' = alo) \<and> (bi' + bs' \<le> i + 1 \<or> bs' = 0)"
  using assms
proof (induction js arbitrary: new bi bj bs)
  case Nil
  then show ?case by auto
next
  case (Cons j js)
  show ?case
  proof (cases "j < blo")
    case True
    with Cons.prems have "inner_loop j2len i blo bhi js (new, (bi, bj, bs)) = (new', (bi', bj', bs'))" by simp
    from Cons.IH[OF Cons.prems(1-6) this] show ?thesis .
  next
    case False
    show ?thesis
    proof (cases "bhi \<le> j")
      case True
      with False Cons.prems show ?thesis by auto
    next
      case nb: False
      define k where "k = (if j = 0 then 0 else j2len (j - 1)) + 1"
      have k1: "1 \<le> k" and k2: "k \<le> i + 1 - alo"
        using Cons.prems(1,2) by (auto simp: k_def le_diff_conv2 intro: order_trans[OF _ Suc_leI] split: if_splits)
      show ?thesis
      proof (cases "bs < k")
        case True
        have e: "inner_loop j2len i blo bhi js (new(j := k), (i + 1 - k, j + 1 - k, k)) = (new', (bi', bj', bs'))"
          using Cons.prems(7) False nb True by (simp add: k_def Let_def)
        show ?thesis
          apply (rule Cons.IH[OF Cons.prems(1,2) _ _ _ _ e])
          using k1 k2 Cons.prems(2,6) by auto
      next
        case nk: False
        have e: "inner_loop j2len i blo bhi js (new(j := k), (bi, bj, bs)) = (new', (bi', bj', bs'))"
          using Cons.prems(7) False nb nk by (simp add: k_def Let_def)
        show ?thesis
          apply (rule Cons.IH[OF Cons.prems(1,2,3,4,5) _ e])
          using k1 k2 Cons.prems(2,6) by auto
      qed
    qed
  qed
qed


lemma outer_bounds:
  assumes "\<forall>j. j2len j \<le> m - alo" "alo \<le> m"
    and "alo \<le> bi" "bs = 0 \<longrightarrow> bi = alo" "bi + bs \<le> m \<or> bs = 0" "m \<le> ahi \<or> bs = 0"
    and "outer_loop a b blo bhi [m..<ahi] (j2len, (bi, bj, bs)) = (bi', bj', bs')"
  shows "alo \<le> bi' \<and> (bs' = 0 \<longrightarrow> bi' = alo) \<and> (bi' + bs' \<le> ahi \<or> bs' = 0)"
  using assms
proof (induction "ahi - m" arbitrary: m j2len bi bj bs)
  case 0
  then have "[m..<ahi] = []" by simp
  with 0 show ?case by auto
next
  case (Suc n)
  then have lt: "m < ahi" by simp
  then have u: "[m..<ahi] = m # [Suc m..<ahi]" by (simp add: upt_rec)
  obtain new bi1 bj1 bs1 where
    il: "inner_loop j2len m blo bhi (b2j b (a ! m)) (\<lambda>j. 0, (bi, bj, bs)) = (new, (bi1, bj1, bs1))"
    by (metis prod_cases3)
  have ib: "(\<forall>j. new j \<le> m + 1 - alo) \<and> alo \<le> bi1 \<and> (bs1 = 0 \<longrightarrow> bi1 = alo) \<and> (bi1 + bs1 \<le> m + 1 \<or> bs1 = 0)"
    apply (rule inner_bounds[OF Suc.prems(1,2,3,4) _ _ il])
    using Suc.prems(5) by auto
  have e: "outer_loop a b blo bhi [Suc m..<ahi] (new, (bi1, bj1, bs1)) = (bi', bj', bs')"
    using Suc.prems(7) u il by simp
  have n: "n = ahi - Suc m" using Suc.hyps(2) by simp
  show ?case
    apply (rule Suc.hyps(1)[OF n _ _ _ _ _ _ e])
    using ib Suc.prems(2) lt by auto
qed

lemma extend_left_bounds:
  assumes "alo \<le> bi" "bs = 0 \<longrightarrow> bi = alo" "bi + bs \<le> ahi \<or> bs = 0"
    and "extend_left a b alo blo (bi, bj, bs) = (bi', bj', bs')"
  shows "alo \<le> bi' \<and> (bs' = 0 \<longrightarrow> bi' = alo) \<and> (bi' + bs' \<le> ahi \<or> bs' = 0)"
  using assms
proof (induction a b alo blo "(bi, bj, bs)" arbitrary: bi bj bs rule: extend_left.induct)
  case (1 a b alo blo besti bestj bestsize)
  show ?case
  proof (cases "alo < besti \<and> blo < bestj \<and> a ! (besti - 1) = b ! (bestj - 1)")
    case True
    then have e: "extend_left a b alo blo (besti - 1, bestj - 1, bestsize + 1) = (bi', bj', bs')"
      using "1.prems"(4) by (simp add: extend_left.simps[of a b alo blo besti])
    show ?thesis
      apply (rule "1.hyps"[OF True _ _ _ e])
      using True "1.prems" by auto
  next
    case False
    then show ?thesis using "1.prems" by (auto simp: extend_left.simps[of a b alo blo besti])
  qed
qed

lemma extend_right_bounds:
  assumes "alo \<le> bi" "bs = 0 \<longrightarrow> bi = alo" "bi + bs \<le> ahi \<or> bs = 0"
    and "extend_right a b ahi bhi (bi, bj, bs) = (bi', bj', bs')"
  shows "alo \<le> bi' \<and> (bi' + bs' \<le> ahi \<or> bs' = 0)"
  using assms
proof (induction a b ahi bhi "(bi, bj, bs)" arbitrary: bi bj bs rule: extend_right.induct)
  case (1 a b ahi bhi besti bestj bestsize)
  show ?case
  proof (cases "besti + bestsize < ahi \<and> bestj + bestsize < bhi \<and> a ! (besti + bestsize) = b ! (bestj + bestsize)")
    case True
    then have e: "extend_right a b ahi bhi (besti, bestj, bestsize + 1) = (bi', bj', bs')"
      using "1.prems"(4) by (simp add: extend_right.simps[of a b ahi bhi besti])
    show ?thesis
      apply (rule "1.hyps"[OF True _ _ _ e])
      using True "1.prems" by auto
  next
    case False
    then show ?thesis using "1.prems" by (auto simp: extend_right.simps[of a b ahi bhi besti])
  qed
qed

lemma find_longest_match_bounds:
  assumes "find_longest_match a b alo ahi blo bhi = (i, j, k)"
  shows "alo \<le> i \<and> (i + k \<le> ahi \<or> k = 0)"
proof -
  obtain i1 j1 k1 where o: "outer_loop a b blo bhi [alo..<ahi] (\<lambda>j. 0, (alo, blo, 0)) = (i1, j1, k1)"
    by (metis prod_cases3)
  obtain i2 j2 k2 where l: "extend_left a b alo blo (i1, j1, k1) = (i2, j2, k2)"
    by (metis prod_cases3)
  have r: "extend_right a b ahi bhi (i2, j2, k2) = (i, j, k)"
    using assms o l by (simp add: find_longest_match_def)
  have b1: "alo \<le> i1 \<and> (k1 = 0 \<longrightarrow> i1 = alo) \<and> (i1 + k1 \<le> ahi \<or> k1 = 0)"
    by (rule outer_bounds[OF _ _ _ _ _ _ o]) auto
  have b2: "alo \<le> i2 \<and> (k2 = 0 \<longrightarrow> i2 = alo) \<and> (i2 + k2 \<le> ahi \<or> k2 = 0)"
    by (rule extend_left_bounds[OF _ _ _ l]) (use b1 in auto)
  show ?thesis
    by (rule extend_right_bounds[OF _ _ _ r]) (use b2 in auto)
qed

text \<open>
  The loop of \<open>get_matching_blocks\<close>. The queue is held with its last element first:
  \<open>queue.pop()\<close> takes the head, \<open>queue.append\<close> puts a new head.
\<close>

function blocks_loop :: "'a list \<Rightarrow> 'a list \<Rightarrow> (nat \<times> nat \<times> nat \<times> nat) list \<Rightarrow> block list \<Rightarrow> block list" where
  "blocks_loop a b [] matching_blocks = matching_blocks"
| "blocks_loop a b ((alo, ahi, blo, bhi) # queue) matching_blocks =
     (case find_longest_match a b alo ahi blo bhi of
        (i, j, k) \<Rightarrow>
          if k \<noteq> 0 then
            blocks_loop a b
              ((if i + k < ahi \<and> j + k < bhi then [(i + k, ahi, j + k, bhi)] else [])
               @ (if alo < i \<and> blo < j then [(alo, i, blo, j)] else []) @ queue)
              (matching_blocks @ [(i, j, k)])
          else blocks_loop a b queue matching_blocks)"
  by pat_completeness auto
termination
  by (relation "measure (\<lambda>(a, b, queue, acc). sum_list (map (\<lambda>(alo, ahi, blo, bhi). 2 * (ahi - alo) + 1) queue))")
     (auto dest!: find_longest_match_bounds[OF sym])

text \<open>Adjacent blocks are merged; the first argument is the block \<open>(i1, j1, k1)\<close> being grown.\<close>

fun collapse :: "block \<Rightarrow> block list \<Rightarrow> block list" where
  "collapse (i1, j1, k1) [] = (if k1 \<noteq> 0 then [(i1, j1, k1)] else [])"
| "collapse (i1, j1, k1) ((i2, j2, k2) # blocks) =
     (if i1 + k1 = i2 \<and> j1 + k1 = j2 then collapse (i1, j1, k1 + k2) blocks
      else (if k1 \<noteq> 0 then [(i1, j1, k1)] else []) @ collapse (i2, j2, k2) blocks)"

definition get_matching_blocks :: "'a list \<Rightarrow> 'a list \<Rightarrow> block list" where
  "get_matching_blocks a b =
     collapse (0, 0, 0) (sort (blocks_loop a b [(0, length a, 0, length b)] []))
       @ [(length a, length b, 0)]"

text \<open>
  \<open>_calculate_ratio\<close> and \<open>ratio\<close>. Python computes \<open>2.0 * matches / length\<close> in binary
  floating point: its result is the double nearest to the rational number below (the
  operands are exact, the division is correctly rounded). The numbers \<open>0\<close>, \<open>1/4\<close>,
  \<open>1/2\<close> and \<open>1\<close> are doubles, so they are returned as they are.
\<close>

definition calculate_ratio :: "nat \<Rightarrow> nat \<Rightarrow> rat" where
  "calculate_ratio matches len = (if len \<noteq> 0 then 2 * of_nat matches / of_nat len else 1)"

definition ratio :: "'a list \<Rightarrow> 'a list \<Rightarrow> rat" where
  "ratio a b =
     calculate_ratio (sum_list (map (\<lambda>(i, j, k). k) (get_matching_blocks a b))) (length a + length b)"

definition similar :: "string \<Rightarrow> string \<Rightarrow> rat" where
  "similar a b = ratio a b"


section \<open>Assertion matchers\<close>

text \<open>
  A matcher takes the session and the expression and answers \<open>None\<close> (the shape is not
  its own), a payload (the check passed) or raises: an \<open>AssertionError\<close> when its check
  fails, another exception when something else goes wrong. The browser state after the
  call is returned in every case.
\<close>

type_synonym 'b matcher = "'b page \<Rightarrow> string \<Rightarrow> (exn + dict option) \<times> 'b"

definition status_rx :: "rx list" where
  "status_rx = [Lit ''page.status'', Plus Space, Lit ''is'', Plus Space, GOpen, Plus Digit, GClose]"

definition url_rx :: "rx list" where
  \<open>url_rx = [Lit ''page.url'', Plus Space, Lit ''is'', Plus Space,
              Lit ''"'', GOpen, LazyPlus Dot, GClose, Lit ''"'']\<close>

definition exists_rx :: "rx list" where
  \<open>exists_rx = [Lit ''element'', Plus Space, Lit ''"'', GOpen, LazyPlus Dot, GClose, Lit ''"'',
                 Plus Space, Lit ''exists'']\<close>

definition visible_rx :: "rx list" where
  \<open>visible_rx = [Lit ''element'', Plus Space, Lit ''"'', GOpen, LazyPlus Dot, GClose, Lit ''"'',
                  Plus Space, Lit ''visible'']\<close>

definition similar_rx :: "rx list" where
  \<open>similar_rx = [Lit ''element'', Plus Space, Lit ''"'', GOpen, LazyPlus Dot, GClose, Lit ''"'',
                  Plus Space, Lit ''similar to'', Plus Space,
                  Lit ''"'', GOpen, LazyPlus Dot, GClose, Lit ''"'',
                  Star Space, Lit ''<'', Star Space, GOpen, Plus DigitDot, GClose]\<close>

definition children_rx :: "rx list" where
  \<open>children_rx = [Lit ''children of'', Plus Space, Lit ''"'', GOpen, LazyPlus Dot, GClose, Lit ''"'',
                   Plus Space, Lit ''count'', Star Space,
                   GOpen, Alt [''>='', ''<='', ''>'', ''<'', ''==''], GClose,
                   Star Space, GOpen, Plus Digit, GClose]\<close>

definition cls_rx :: "rx list" where
  "cls_rx = [Lit ''CLS'', Star Space, Lit ''<'', Star Space, GOpen, Plus DigitDot, GClose]"

definition attribute_rx :: "rx list" where
  "attribute_rx = [Lit ''attribute'', Plus Space, GOpen, LazyPlus Dot, Lit ''@'', LazyPlus Dot, GClose,
                   Plus Space, Lit ''matches'', Plus Space, Lit ''/'', GOpen, Plus Dot, GClose, Lit ''/'']"

definition each_rx :: "rx list" where
  \<open>each_rx = [Lit ''each attribute '', GOpen, Plus Word, GClose, Lit '' in elements "'',
               GOpen, Plus NotQuote, GClose, Lit ''" matches /'', GOpen, Plus Dot, GClose, Lit ''/'']\<close>

definition language_rx :: "rx list" where
  \<open>language_rx = [Lit ''element'', Plus Space, Lit ''"'', GOpen, LazyPlus Dot, GClose, Lit ''"'',
                   Plus Space, Lit ''language'', Plus Space, Lit ''equals'', Plus Space,
                   Lit ''html@lang'']\<close>

definition no_duplicates_rx :: "rx list" where
  \<open>no_duplicates_rx = [Lit ''no duplicates in attribute'', Plus Space, GOpen, Plus Word, GClose,
                        Plus Space, Lit ''of elements'', Plus Space,
                        Lit ''"'', GOpen, Plus NotQuote, GClose, Lit ''"'']\<close>

text \<open>The apostrophe of the messages.\<close>

definition sq :: string where
  "sq = [CHR 0x27]"

definition assert_status :: "'b matcher" where
  "assert_status p expr =
     (case re_match status_rx expr of
        None \<Rightarrow> (Inr None, bstate p)
      | Some gs \<Rightarrow>
          (case last_response p of
             None \<Rightarrow> (Inl (AssertionError ''No prior Goto; cannot check page.status''), bstate p)
           | Some r \<Rightarrow>
               (let expected = int (int_of_digits (group gs 1)); got = resp_status r
                in if got \<noteq> expected
                   then (Inl (AssertionError
                               (''Expected status '' @ str_int expected @ '', got '' @ str_int got)),
                         bstate p)
                   else (Inr (Some []), bstate p))))"

definition assert_url :: "'b engine \<Rightarrow> 'b matcher" where
  "assert_url B p expr =
     (case re_match url_rx expr of
        None \<Rightarrow> (Inr None, bstate p)
      | Some gs \<Rightarrow>
          (let expected = group gs 1; got = pw_url B (bstate p)
           in if got \<noteq> expected
              then (Inl (AssertionError (''Expected URL '' @ expected @ '', got '' @ got)), bstate p)
              else (Inr (Some []), bstate p)))"

definition assert_exists :: "'b engine \<Rightarrow> 'b matcher" where
  "assert_exists B p expr =
     (case re_match exists_rx expr of
        None \<Rightarrow> (Inr None, bstate p)
      | Some gs \<Rightarrow>
          (let sel = group gs 1
           in case pw_count B sel (bstate p) of
                (Inl e, b1) \<Rightarrow> (Inl (Playwright e), b1)
              | (Inr cnt, b1) \<Rightarrow>
                  if cnt = 0 then (Inl (AssertionError (sel @ '' not found'')), b1)
                  else (Inr (Some (dict_lit [(''children_count'', JInt (int cnt))])), b1)))"

text \<open>The loop of \<open>assert_visible\<close> that counts the visible elements among the matches.\<close>

fun visible_loop :: "'b engine \<Rightarrow> string \<Rightarrow> nat list \<Rightarrow> nat \<Rightarrow> 'b \<Rightarrow> (perr + nat) \<times> 'b" where
  "visible_loop B sel [] visible_count b = (Inr visible_count, b)"
| "visible_loop B sel (i # is) visible_count b =
     (case pw_nth_is_visible B sel i b of
        (Inl e, b1) \<Rightarrow> (Inl e, b1)
      | (Inr v, b1) \<Rightarrow> visible_loop B sel is (if v then visible_count + 1 else visible_count) b1)"

text \<open>
  The fallback of \<open>assert_visible\<close>, taken when the first count is not one and also when
  anything is raised in the strict attempt, the \<open>AssertionError\<close> of a hidden single match
  included (\<open>except Exception: pass\<close>).
\<close>

definition visible_fallback :: "'b engine \<Rightarrow> string \<Rightarrow> 'b \<Rightarrow> (exn + dict option) \<times> 'b" where
  "visible_fallback B sel b =
     (case pw_count B sel b of
        (Inl e, b1) \<Rightarrow> (Inl (Playwright e), b1)
      | (Inr tot, b1) \<Rightarrow>
          if tot = 0 then (Inl (AssertionError (sel @ '' not found'')), b1)
          else (case visible_loop B sel [0..<tot] 0 b1 of
                  (Inl e, b2) \<Rightarrow> (Inl (Playwright e), b2)
                | (Inr visible_count, b2) \<Rightarrow>
                    if visible_count = 0
                    then (Inl (AssertionError
                                (sel @ '' matched '' @ str_nat tot @ '' elements, none visible'')),
                          b2)
                    else (Inr (Some (dict_lit [(''matches'', JInt (int tot)),
                                               (''visible'', JInt (int visible_count))])),
                          b2)))"

definition assert_visible :: "'b engine \<Rightarrow> 'b matcher" where
  "assert_visible B p expr =
     (case re_match visible_rx expr of
        None \<Rightarrow> (Inr None, bstate p)
      | Some gs \<Rightarrow>
          (let sel = group gs 1
           in case pw_count B sel (bstate p) of
                (Inl e, b1) \<Rightarrow> visible_fallback B sel b1
              | (Inr cnt, b1) \<Rightarrow>
                  if cnt = 1 then
                    (case pw_is_visible B sel b1 of
                       (Inl e, b2) \<Rightarrow> visible_fallback B sel b2
                     | (Inr v, b2) \<Rightarrow>
                         if \<not> v then visible_fallback B sel b2
                         else (Inr (Some (dict_lit [(''matches'', JInt 1), (''visible'', JInt 1)])), b2))
                  else visible_fallback B sel b1))"

text \<open>The end of \<open>assert_similar\<close>, once the text to compare with is known.\<close>

definition similarity_verdict ::
  "env \<Rightarrow> string \<Rightarrow> string \<Rightarrow> rat \<Rightarrow> (string \<times> jval) \<Rightarrow> 'b \<Rightarrow> (exn + dict option) \<times> 'b" where
  "similarity_verdict E phrase txt thr extra b =
     (let score = to_double E (similar (py_lower phrase) (py_lower txt))
      in if thr \<le> score
         then (Inl (AssertionError
                     (''Similarity '' @ fmt_2f E score @ '' '' @ geq_sign E @ '' '' @ str_float E thr)),
               b)
         else (Inr (Some (dict_lit [(''similarity'', JNum score), extra])), b))"

definition assert_similar :: "'b engine \<Rightarrow> env \<Rightarrow> 'b matcher" where
  "assert_similar B E p expr =
     (case re_match similar_rx expr of
        None \<Rightarrow> (Inr None, bstate p)
      | Some gs \<Rightarrow>
          (let sel = group gs 1; phrase = group gs 2
           in case py_float E (group gs 3) of
                None \<Rightarrow> (Inl (ValueError (group gs 3)), bstate p)
              | Some thr \<Rightarrow>
                  if startswith (py_lower sel) ''head meta'' then
                    (case pw_get_attribute B sel ''content'' (bstate p) of
                       (Inl (PlaywrightTimeoutError m), b1) \<Rightarrow>
                         (Inl (AssertionError
                                (''Could not read attribute '' @ sq @ ''content'' @ sq @ '' from ''
                                   @ sel @ '': timed out'')),
                          b1)
                     | (Inl (PlaywrightError m), b1) \<Rightarrow> (Inl (Playwright (PlaywrightError m)), b1)
                     | (Inr attr, b1) \<Rightarrow>
                         similarity_verdict E phrase (case attr of None \<Rightarrow> [] | Some t \<Rightarrow> t) thr
                           (''attribute'', jopt attr) b1)
                  else
                    (case pw_visible_text B sel (bstate p) of
                       (Inl (PlaywrightTimeoutError m), b1) \<Rightarrow>
                         (Inl (AssertionError
                                (''Could not extract visible text from selector '' @ sel
                                   @ '': timed out'')),
                          b1)
                     | (Inl (PlaywrightError m), b1) \<Rightarrow> (Inl (Playwright (PlaywrightError m)), b1)
                     | (Inr txt, b1) \<Rightarrow>
                         similarity_verdict E phrase txt thr (''text_snippet'', JStr (take 50 txt)) b1)))"

text \<open>The table \<open>ops\<close> of \<open>assert_children\<close>, read at the operator that the pattern captured.\<close>

definition children_op :: "string \<Rightarrow> nat \<Rightarrow> nat \<Rightarrow> bool" where
  "children_op op cnt val =
     (if op = ''>'' then val < cnt
      else if op = ''<'' then cnt < val
      else if op = ''>='' then val \<le> cnt
      else if op = ''<='' then cnt \<le> val
      else cnt = val)"

definition assert_children :: "'b engine \<Rightarrow> 'b matcher" where
  "assert_children B p expr =
     (case re_match children_rx expr of
        None \<Rightarrow> (Inr None, bstate p)
      | Some gs \<Rightarrow>
          (let sel = group gs 1; op = group gs 2; val = int_of_digits (group gs 3)
           in case pw_count B (sel @ '' > *'') (bstate p) of
                (Inl e, b1) \<Rightarrow> (Inl (Playwright e), b1)
              | (Inr cnt, b1) \<Rightarrow>
                  if \<not> children_op op cnt val
                  then (Inl (AssertionError
                              (''Children count '' @ str_nat cnt @ '' '' @ op @ '' '' @ str_nat val
                                 @ '' failed'')),
                        b1)
                  else (Inr (Some (dict_lit [(''children_count'', JInt (int cnt))])), b1)))"

definition assert_cls :: "'b engine \<Rightarrow> env \<Rightarrow> 'b matcher" where
  "assert_cls B E p expr =
     (case re_match cls_rx expr of
        None \<Rightarrow> (Inr None, bstate p)
      | Some gs \<Rightarrow>
          (case py_float E (group gs 1) of
             None \<Rightarrow> (Inl (ValueError (group gs 1)), bstate p)
           | Some thr \<Rightarrow>
               (case pw_layout_shift B (bstate p) of
                  (Inl e, b1) \<Rightarrow> (Inl (Playwright e), b1)
                | (Inr (JInt i), b1) \<Rightarrow>
                    if thr \<le> of_int i
                    then (Inl (AssertionError
                                (''CLS '' @ str_int i @ '' '' @ geq_sign E @ '' '' @ str_float E thr)),
                          b1)
                    else (Inr (Some (dict_lit [(''cls'', JInt i)])), b1)
                | (Inr (JNum q), b1) \<Rightarrow>
                    if thr \<le> q
                    then (Inl (AssertionError
                                (''CLS '' @ str_float E q @ '' '' @ geq_sign E @ '' '' @ str_float E thr)),
                          b1)
                    else (Inr (Some (dict_lit [(''cls'', JNum q)])), b1)
                | (Inr v, b1) \<Rightarrow> (Inl (TypeError ''>=''), b1))))"

definition assert_attribute_regex :: "'b engine \<Rightarrow> env \<Rightarrow> 'b matcher" where
  "assert_attribute_regex B E p expr =
     (case re_match attribute_rx expr of
        None \<Rightarrow> (Inr None, bstate p)
      | Some gs \<Rightarrow>
          (let elem_attr = group gs 1; regex = group gs 2;
               sel = takeWhile (\<lambda>c. c \<noteq> CHR ''@'') elem_attr;
               attr = drop 1 (dropWhile (\<lambda>c. c \<noteq> CHR ''@'') elem_attr)
           in case pw_get_attribute B sel attr (bstate p) of
                (Inl (PlaywrightTimeoutError m), b1) \<Rightarrow>
                  (Inl (AssertionError
                         (''Could not read attribute '' @ sq @ attr @ sq @ '' from '' @ sel
                            @ '': timed out'')),
                   b1)
              | (Inl (PlaywrightError m), b1) \<Rightarrow> (Inl (Playwright (PlaywrightError m)), b1)
              | (Inr val, b1) \<Rightarrow>
                  (case user_re_match E regex (case val of None \<Rightarrow> [] | Some t \<Rightarrow> t) of
                     None \<Rightarrow> (Inl (ReError regex), b1)
                   | Some False \<Rightarrow>
                       (Inl (AssertionError
                              (sel @ ''@'' @ attr @ ''='' @ sq @ str_opt val @ sq
                                 @ '' does not match /'' @ regex @ ''/'')),
                        b1)
                   | Some True \<Rightarrow> (Inr (Some (dict_lit [(''attribute'', jopt val)])), b1))))"

text \<open>The loop of \<open>assert_regex_each\<close> over the matched elements; \<open>seen\<close> holds the values met.\<close>

fun regex_each_loop ::
  "'b engine \<Rightarrow> env \<Rightarrow> string \<Rightarrow> string \<Rightarrow> string \<Rightarrow> nat list \<Rightarrow> string option list \<Rightarrow> 'b
     \<Rightarrow> (exn + string option list) \<times> 'b" where
  "regex_each_loop B E sel attr regex [] seen b = (Inr seen, b)"
| "regex_each_loop B E sel attr regex (i # is) seen b =
     (case pw_nth_get_attribute B sel i attr b of
        (Inl e, b1) \<Rightarrow> (Inl (Playwright e), b1)
      | (Inr val, b1) \<Rightarrow>
          (case user_re_match E regex (case val of None \<Rightarrow> [] | Some t \<Rightarrow> t) of
             None \<Rightarrow> (Inl (ReError regex), b1)
           | Some False \<Rightarrow>
               (Inl (AssertionError
                      (sel @ ''['' @ str_nat i @ '']@'' @ attr @ ''='' @ sq @ str_opt val @ sq
                         @ '' fails /'' @ regex @ ''/'')),
                b1)
           | Some True \<Rightarrow>
               if val \<in> set seen
               then (Inl (AssertionError (''Duplicate '' @ attr @ ''='' @ sq @ str_opt val @ sq)), b1)
               else regex_each_loop B E sel attr regex is (seen @ [val]) b1))"

text \<open>
  \<open>assert_regex_each\<close>. When the variable store holds a true value under \<open>BASE_URL\<close>, the
  source escapes it (a \<open>TypeError\<close> unless it is a string) and then reads the local variable
  \<open>raw_regex\<close>, which is assigned nowhere before: an \<open>UnboundLocalError\<close>.
\<close>

definition assert_regex_each :: "'b engine \<Rightarrow> env \<Rightarrow> 'b matcher" where
  "assert_regex_each B E p expr =
     (case re_match each_rx expr of
        None \<Rightarrow> (Inr None, bstate p)
      | Some gs \<Rightarrow>
          (let attr = group gs 1; sel = group gs 2; regex = group gs 3;
               base = (case vars p of None \<Rightarrow> None | Some d \<Rightarrow> dict_get d ''BASE_URL'')
           in case base of
                Some (JStr (c # cs)) \<Rightarrow> (Inl (UnboundLocalError ''raw_regex''), bstate p)
              | _ \<Rightarrow>
                  if (case base of None \<Rightarrow> False | Some v \<Rightarrow> truthy v)
                  then (Inl (TypeError ''escape''), bstate p)
                  else
                    (case pw_count B sel (bstate p) of
                       (Inl e, b1) \<Rightarrow> (Inl (Playwright e), b1)
                     | (Inr n, b1) \<Rightarrow>
                         (case regex_each_loop B E sel attr regex [0..<n] [] b1 of
                            (Inl e, b2) \<Rightarrow> (Inl e, b2)
                          | (Inr seen, b2) \<Rightarrow>
                              (Inr (Some (dict_lit [(''count'', JInt (int (length seen)))])), b2)))))"

definition assert_canonical :: "'b engine \<Rightarrow> 'b matcher" where
  "assert_canonical B p expr =
     (if py_strip expr = ''canonical href equals page.url'' then
        (case pw_first_get_attribute B (''link[rel='' @ sq @ ''canonical'' @ sq @ '']'') ''href'' (bstate p) of
           (Inl e, b1) \<Rightarrow> (Inl (Playwright e), b1)
         | (Inr href, b1) \<Rightarrow>
             if href \<noteq> Some (pw_url B b1)
             then (Inl (AssertionError
                         (''canonical='' @ sq @ str_opt href @ sq @ '' != url='' @ sq @ pw_url B b1 @ sq)),
                   b1)
             else (Inr (Some (dict_lit [(''canonical'', jopt href)])), b1))
      else (Inr None, bstate p))"

definition assert_language :: "'b engine \<Rightarrow> 'b matcher" where
  "assert_language B p expr =
     (case re_match language_rx expr of
        None \<Rightarrow> (Inr None, bstate p)
      | Some gs \<Rightarrow>
          (let sel = group gs 1
           in case pw_get_attribute B ''html'' ''lang'' (bstate p) of
                (Inl e, b1) \<Rightarrow> (Inl (Playwright e), b1)
              | (Inr html_lang, b1) \<Rightarrow>
                  (case pw_get_attribute B sel ''lang'' b1 of
                     (Inl e, b2) \<Rightarrow> (Inl (Playwright e), b2)
                   | (Inr elem_lang, b2) \<Rightarrow>
                       if elem_lang \<noteq> html_lang
                       then (Inl (AssertionError
                                   (sel @ ''@lang='' @ sq @ str_opt elem_lang @ sq @ '' != html@lang=''
                                      @ sq @ str_opt html_lang @ sq)),
                             b2)
                       else (Inr (Some (dict_lit [(''element_lang'', jopt elem_lang),
                                                  (''html_lang'', jopt html_lang)])),
                             b2))))"

fun no_duplicates_loop ::
  "'b engine \<Rightarrow> string \<Rightarrow> string \<Rightarrow> nat list \<Rightarrow> string option list \<Rightarrow> 'b
     \<Rightarrow> (exn + string option list) \<times> 'b" where
  "no_duplicates_loop B sel attr [] seen b = (Inr seen, b)"
| "no_duplicates_loop B sel attr (i # is) seen b =
     (case pw_nth_get_attribute B sel i attr b of
        (Inl e, b1) \<Rightarrow> (Inl (Playwright e), b1)
      | (Inr val, b1) \<Rightarrow>
          if val \<in> set seen
          then (Inl (AssertionError
                      (''Duplicate '' @ attr @ ''='' @ sq @ str_opt val @ sq @ '' in '' @ sel
                         @ ''['' @ str_nat i @ '']'')),
                b1)
          else no_duplicates_loop B sel attr is (seen @ [val]) b1)"

definition assert_no_duplicates :: "'b engine \<Rightarrow> 'b matcher" where
  "assert_no_duplicates B p expr =
     (case re_match no_duplicates_rx expr of
        None \<Rightarrow> (Inr None, bstate p)
      | Some gs \<Rightarrow>
          (let attr = group gs 1; sel = group gs 2
           in case pw_count B sel (bstate p) of
                (Inl e, b1) \<Rightarrow> (Inl (Playwright e), b1)
              | (Inr n, b1) \<Rightarrow>
                  (case no_duplicates_loop B sel attr [0..<n] [] b1 of
                     (Inl e, b2) \<Rightarrow> (Inl e, b2)
                   | (Inr seen, b2) \<Rightarrow>
                       (Inr (Some (dict_lit [(''unique_count'', JInt (int (length seen)))])), b2))))"


section \<open>The assertion chain\<close>

text \<open>\<open>save_snapshot\<close>: the markup is written to a file and a screenshot taken.\<close>

definition save_snapshot :: "'b engine \<Rightarrow> string \<Rightarrow> 'b \<Rightarrow> (exn + string \<times> string) \<times> 'b" where
  "save_snapshot B prefix b =
     (case pw_content B b of
        (Inl e, b1) \<Rightarrow> (Inl (Playwright e), b1)
      | (Inr html, b1) \<Rightarrow>
          (case fs_write_text B (prefix @ ''.html'') html b1 of
             (Inl m, b2) \<Rightarrow> (Inl (OSError m), b2)
           | (Inr u, b2) \<Rightarrow>
               (case pw_screenshot B (prefix @ ''.png'') b2 of
                  (Inl e, b3) \<Rightarrow> (Inl (Playwright e), b3)
                | (Inr u, b3) \<Rightarrow> (Inr (prefix @ ''.html'', prefix @ ''.png''), b3))))"

text \<open>The matchers in the order of the list \<open>handlers\<close>.\<close>

definition handlers :: "'b engine \<Rightarrow> env \<Rightarrow> 'b matcher list" where
  "handlers B E =
     [assert_status, assert_url B, assert_exists B, assert_visible B,
      assert_similar B E, assert_children B, assert_cls B E,
      assert_attribute_regex B E, assert_regex_each B E, assert_canonical B,
      assert_language B, assert_no_duplicates B]"

text \<open>
  The loop of \<open>handle_assert\<close> over the matchers: only an \<open>AssertionError\<close> is caught; any
  other exception of a matcher, and any exception of the snapshot, leaves the loop.
\<close>

fun assert_loop ::
  "'b engine \<Rightarrow> string \<Rightarrow> bool \<Rightarrow> 'b matcher list \<Rightarrow> 'b page \<Rightarrow> string \<Rightarrow> exn + (dict \<times> 'b page)" where
  "assert_loop B step_line save_snapshots [] p expr =
     Inr (syntax_error step_line (''Unknown assertion: '' @ expr), p)"
| "assert_loop B step_line save_snapshots (h # hs) p expr =
     (case h p expr of
        (Inl (AssertionError error_msg), b1) \<Rightarrow>
          if save_snapshots then
            (case save_snapshot B (''snapshot_'' @ str_nat (clock_ms B b1)) b1 of
               (Inl e, b2) \<Rightarrow> Inl e
             | (Inr (html_file, img_file), b2) \<Rightarrow>
                 Inr (dict_lit [(''step'', JStr step_line), (''status'', JStr ''FAIL''),
                                (''error'', JStr error_msg),
                                (''snapshot_html'', JStr html_file),
                                (''snapshot_image'', JStr img_file)],
                      p\<lparr>bstate := b2\<rparr>))
          else Inr (fail_result step_line error_msg, p\<lparr>bstate := b1\<rparr>)
      | (Inl e, b1) \<Rightarrow> Inl e
      | (Inr None, b1) \<Rightarrow> assert_loop B step_line save_snapshots hs (p\<lparr>bstate := b1\<rparr>) expr
      | (Inr (Some res), b1) \<Rightarrow>
          Inr (dict_lit ([(''step'', JStr step_line), (''status'', JStr ''PASS''), (''error'', JNull)]
                         @ res),
               p\<lparr>bstate := b1\<rparr>))"

definition handle_assert :: "'b engine \<Rightarrow> env \<Rightarrow> 'b page \<Rightarrow> string \<Rightarrow> bool \<Rightarrow> exn + (dict \<times> 'b page)" where
  "handle_assert B E p expr save_snapshots =
     assert_loop B (''Assert '' @ expr) save_snapshots (handlers B E) p expr"


section \<open>Dispatch and the run of one device\<close>

definition SUPPORTED_COMMANDS :: "string list" where
  "SUPPORTED_COMMANDS =
     [''Goto'', ''Click'', ''Fill'', ''FillAuto'', ''WaitFor'', ''ScrollTo'',
      ''Assert'', ''AssertCookie'', ''Viewport'', ''Retry'', ''SetVar'',
      ''WaitForPopup'', ''SwitchToPopup'', ''ClosePopup'',
      ''SwitchToIFrame'', ''ReturnFromIFrame'',
      ''SaveSession'', ''RestoreSession'']"

definition dispatcher :: "'b engine \<Rightarrow> env \<Rightarrow> (string \<times> 'b handler) list" where
  "dispatcher B E =
     [(''Goto'', handle_goto B E), (''Click'', handle_click B), (''Fill'', handle_fill B),
      (''FillAuto'', handle_fillauto B),
      (''WaitFor'', handle_waitfor B), (''ScrollTo'', handle_scrollto B),
      (''AssertCookie'', handle_assertcookie B),
      (''Viewport'', handle_viewport B),
      (''WaitForPopup'', handle_waitforpopup), (''SwitchToPopup'', handle_switchtopopup),
      (''ClosePopup'', handle_closepopup), (''SwitchToIFrame'', handle_switchtoiframe),
      (''ReturnFromIFrame'', handle_returnfromiframe),
      (''SaveSession'', handle_savesession), (''RestoreSession'', handle_restoresession),
      (''Retry'', handle_retry), (''SetVar'', handle_setvar B)]"

text \<open>The lines that \<open>execute_step\<close> skips: comments, blank lines and metadata.\<close>

definition skipped :: "string \<Rightarrow> bool" where
  "skipped line =
     (line = [] \<or> startswith line ''#'' \<or> startswith line ''Test:'' \<or> startswith line ''Tags:''
      \<or> line = ''End'')"

text \<open>
  \<open>execute_step\<close> (its parameter \<open>ctx\<close> is not used): \<open>None\<close> for a skipped line, else the
  Step Result. \<open>line.split()[0]\<close> raises on a line of whitespace only.
\<close>

definition execute_step ::
  "'b engine \<Rightarrow> env \<Rightarrow> 'b page \<Rightarrow> string \<Rightarrow> bool \<Rightarrow> exn + (dict option \<times> 'b page)" where
  "execute_step B E p line save_snapshots =
     (if skipped line then Inr (None, p)
      else
        (case py_split line of
           [] \<Rightarrow> Inl (IndexError ''list index out of range'')
         | cmd # rest \<Rightarrow>
             (case map_of (dispatcher B E) cmd of
                Some h \<Rightarrow> (case h p line of Inl e \<Rightarrow> Inl e | Inr (r, p1) \<Rightarrow> Inr (Some r, p1))
              | None \<Rightarrow>
                  if cmd = ''Assert'' then
                    (case handle_assert B E p (py_strip (drop (length ''Assert'') line)) save_snapshots of
                       Inl e \<Rightarrow> Inl e
                     | Inr (r, p1) \<Rightarrow> Inr (Some r, p1))
                  else if cmd \<notin> set SUPPORTED_COMMANDS
                  then Inr (Some (syntax_error line (''Unknown or malformed: '' @ cmd)), p)
                  else Inr (Some (syntax_error line (''Not implemented: '' @ cmd)), p))))"

text \<open>
  The substitution of the declared variables, in the order of their declaration:
  \<open>for k, v in vars_.items(): content = content.replace(f'<{k}>', v)\<close>.
\<close>

definition substitute :: "(string \<times> string) list \<Rightarrow> string \<Rightarrow> string" where
  "substitute vs content = foldl (\<lambda>c (k, v). py_replace c (''<'' @ k @ ''>'') v) content vs"

text \<open>
  The loop of \<open>run_device\<close> over the raw lines, with the session, the active tags and the
  results so far. An exception that leaves \<open>execute_step\<close> ends the run.
\<close>

fun run_lines ::
  "'b engine \<Rightarrow> env \<Rightarrow> bool \<Rightarrow> string list \<Rightarrow> 'b page \<Rightarrow> string list \<Rightarrow> dict list
     \<Rightarrow> exn + (dict list \<times> 'b page)" where
  "run_lines B E save_snapshots [] p tags results = Inr (results, p)"
| "run_lines B E save_snapshots (raw # raws) p tags results =
     (let line = py_strip raw
      in if startswith line ''Tags:''
         then run_lines B E save_snapshots raws p (findall_words (drop (length ''Tags:'') line)) results
         else if line = [] \<or> startswith line ''Test:'' \<or> line = ''End'' \<or> startswith line ''#''
         then run_lines B E save_snapshots raws p tags results
         else
           (case execute_step B E p line save_snapshots of
              Inl e \<Rightarrow> Inl e
            | Inr (None, p1) \<Rightarrow> run_lines B E save_snapshots raws p1 tags results
            | Inr (Some step, p1) \<Rightarrow>
                if step \<noteq> []
                then run_lines B E save_snapshots raws p1 tags
                       (results @ [dict_set ''tags'' (JList (map JStr tags)) step])
                else run_lines B E save_snapshots raws p1 tags results))"

text \<open>
  \<open>run_device\<close>, from the text of the script and the fresh page of the device (launching
  the browser and reading the file are the outside world's).
\<close>

definition run_device ::
  "'b engine \<Rightarrow> env \<Rightarrow> string \<Rightarrow> string \<Rightarrow> 'b \<Rightarrow> (string \<times> string) list \<Rightarrow> bool \<Rightarrow> exn + dict" where
  "run_device B E script_text device b0 vs save_snapshots =
     (case run_lines B E save_snapshots (splitlines (substitute vs script_text))
             \<lparr>bstate = b0, last_response = None, vars = None\<rparr> [] [] of
        Inl e \<Rightarrow> Inl e
      | Inr (results, p) \<Rightarrow>
          Inr (dict_lit [(''device'', JStr device), (''results'', JList (map JDict results))]))"


section \<open>Reserved keywords and a test session\<close>

text \<open>The keywords of the stubs.\<close>

definition stub_keywords :: "string list" where
  "stub_keywords = [''WaitForPopup'', ''SwitchToPopup'', ''ClosePopup'', ''SwitchToIFrame'',
                    ''ReturnFromIFrame'', ''SaveSession'', ''RestoreSession'', ''Retry'']"

text \<open>
  A session for the examples: a browser with one page that answers every call the same
  way, whatever happened before.
\<close>

definition demo_response :: "int \<Rightarrow> string \<Rightarrow> response" where
  "demo_response code url =
     \<lparr>resp_status = code, resp_headers = [(''content-type'', JStr ''text/html'')],
      resp_request = Request url None\<rparr>"

definition demo_engine :: "unit engine" where
  "demo_engine =
     \<lparr>pw_goto = (\<lambda>url b.
          (Inr (Some (demo_response (if url = ''https://example.test/missing'' then 404 else 200) url)), b)),
      pw_navigation_timing = (\<lambda>b. (Inr (JDict [(''redirectCount'', JInt 0)]), b)),
      pw_title = (\<lambda>b. (Inr ''Example'', b)),
      pw_url = (\<lambda>b. ''https://example.test/''),
      pw_evaluate = (\<lambda>js b. if js = ''1 + 1'' then (Inr (JInt 2), b)
                              else (Inl (PlaywrightError ''SyntaxError''), b)),
      pw_layout_shift = (\<lambda>b. (Inr (JInt 0), b)),
      pw_visible_text = (\<lambda>sel b. (Inr ''Example Domain'', b)),
      pw_click = (\<lambda>sel b. (Inr (), b)),
      pw_fill = (\<lambda>sel txt b. (Inr (), b)),
      pw_press = (\<lambda>sel key b. (Inr (), b)),
      pw_wait_for_load_state = (\<lambda>b. (Inr (), b)),
      pw_wait_for_selector = (\<lambda>sel b. (Inr (), b)),
      pw_scroll_into_view = (\<lambda>sel b. (Inr (), b)),
      pw_cookies = (\<lambda>b. (Inr [(''session'', ''abc'')], b)),
      pw_set_viewport_size = (\<lambda>w h b. if h \<le> 10000 then (Inr (), b)
                                         else (Inl (PlaywrightError ''viewport too large''), b)),
      pw_count = (\<lambda>sel b. (Inr (if sel = ''div#missing'' then 0 else 1), b)),
      pw_is_visible = (\<lambda>sel b. (Inr True, b)),
      pw_nth_is_visible = (\<lambda>sel i b. (Inr True, b)),
      pw_get_attribute = (\<lambda>sel name b. (Inr (Some ''en''), b)),
      pw_nth_get_attribute = (\<lambda>sel i name b. (Inr (Some ''https://example.test/a''), b)),
      pw_first_get_attribute = (\<lambda>sel name b. (Inr (Some ''https://example.test/''), b)),
      pw_content = (\<lambda>b. (Inr ''<html></html>'', b)),
      pw_screenshot = (\<lambda>path b. (Inr (), b)),
      fs_write_text = (\<lambda>path text b. (Inr (), b)),
      clock_ms = (\<lambda>b. 1700000000000)\<rparr>"

definition demo_env :: env where
  "demo_env =
     \<lparr>http_reasons = map_of [(200, ''OK''), (404, ''Not Found'')],
      arrow = '' -> '', geq_sign = ''>='',
      py_float = (\<lambda>s. if s = ''0.5'' then Some (1 / 2) else None),
      to_double = (\<lambda>q. q),
      fmt_2f = (\<lambda>q. ''0.00''),
      str_float = (\<lambda>q. ''0.5''),
      user_re_match = (\<lambda>regex s. Some True)\<rparr>"

definition demo_page :: "unit page" where
  "demo_page = \<lparr>bstate = (), last_response = None, vars = None\<rparr>"

text \<open>Facts for evaluating the examples.\<close>

lemmas demo_simps = demo_engine_def demo_env_def demo_page_def demo_response_def

lemmas eval_simps = re_match_def group_def is_space_def is_digit_def is_word_def py_split_def
  py_strip_def dict_lit_def dict_get_def str_int_def str_nat.simps digit_char_def skipped_def



text \<open>The same session after a SetVar that stored a base URL.\<close>

definition base_url_page :: "unit page" where
  "base_url_page = \<lparr>bstate = (), last_response = None,
                     vars = Some [(''BASE_URL'', JStr ''https://example.test'')]\<rparr>"


text \<open>A browser whose reads of an attribute run into the timeout of the engine.\<close>

definition timeout_engine :: "unit engine" where
  "timeout_engine =
     demo_engine
       \<lparr>pw_get_attribute := (\<lambda>sel name b. (Inl (PlaywrightTimeoutError ''Timeout 30000ms exceeded''), b)),
        pw_first_get_attribute :=
          (\<lambda>sel name b. (Inl (PlaywrightTimeoutError ''Timeout 30000ms exceeded''), b))\<rparr>"


text \<open>
  The active tag set, from the words of the specification: a \<open>Tags:\<close> line sets the tags
  of all the steps after it, until the next \<open>Tags:\<close> line or the end of the script; blank
  lines, comments, \<open>Test:\<close> lines and \<open>End\<close> are not steps. The result lists each step with
  the tags active at its line.
\<close>

fun active_tags :: "string list \<Rightarrow> string list \<Rightarrow> (string list \<times> string) list" where
  "active_tags tags [] = []"
| "active_tags tags (raw # raws) =
     (let line = py_strip raw
      in if startswith line ''Tags:'' then active_tags (findall_words (drop (length ''Tags:'') line)) raws
         else if line = [] \<or> startswith line ''#'' \<or> startswith line ''Test:'' \<or> line = ''End''
         then active_tags tags raws
         else (tags, line) # active_tags tags raws)"

text \<open>A script with two \<open>Tags:\<close> lines, given by its raw lines.\<close>

definition demo_script :: "string list" where
  \<open>demo_script =
     [''Test: landing page'', ''Tags: smoke regression'', ''Click "a"'', [], ''WaitFor "h1"'',
      ''  ScrollTo "h1"'', ''Tags: extended'', ''# resize'', ''Viewport 800x600'', ''Retry'', ''End'']\<close>


text \<open>The placeholder of a name, and \<open>pat in text\<close>.\<close>

definition placeholder :: "string \<Rightarrow> string" where
  "placeholder k = ''<'' @ k @ ''>''"

fun contains :: "string \<Rightarrow> string \<Rightarrow> bool" where
  "contains [] pat = (pat = [])"
| "contains (x # xs) pat = (startswith (x # xs) pat \<or> contains xs pat)"

text \<open>A name without angle brackets.\<close>

definition bracket_free :: "string \<Rightarrow> bool" where
  "bracket_free k = (CHR ''<'' \<notin> set k \<and> CHR ''>'' \<notin> set k)"


section \<open>Patterns and trailing text\<close>










section \<open>Properties of the dispatcher\<close>


lemma startswith_append: "startswith s p \<longleftrightarrow> (\<exists>r. s = p @ r)"
  by (induction s p rule: startswith.induct) auto

lemma split_from_nonspace:
  "\<forall>c \<in> set pre. \<not> is_space c \<Longrightarrow> split_from cur (pre @ r) = split_from (cur @ pre) r"
  by (induction pre arbitrary: cur) auto

lemma split_from_cur: "cur \<noteq> [] \<Longrightarrow> \<exists>t ts. split_from cur xs = (cur @ t) # ts"
proof (induction xs arbitrary: cur)
  case Nil
  then show ?case by simp
next
  case (Cons x xs)
  show ?case
  proof (cases "is_space x")
    case True
    with Cons.prems show ?thesis by simp
  next
    case False
    from Cons.IH[of "cur @ [x]"] obtain t ts where "split_from (cur @ [x]) xs = ((cur @ [x]) @ t) # ts"
      by auto
    with False show ?thesis by auto
  qed
qed

lemma first_token_prefix:
  assumes "startswith line pre" "pre \<noteq> []" "\<forall>c \<in> set pre. \<not> is_space c" "py_split line = cmd # rest"
  shows "startswith cmd pre"
proof -
  from assms(1) obtain r where r: "line = pre @ r" by (auto simp: startswith_append)
  have "py_split line = split_from pre r"
    unfolding py_split_def r using split_from_nonspace[OF assms(3), of "[]" r] by simp
  moreover obtain t ts where "split_from pre r = (pre @ t) # ts"
    using split_from_cur[OF assms(2)] by blast
  ultimately have "cmd = pre @ t" using assms(4) by simp
  then show ?thesis by (auto simp: startswith_append)
qed

lemma skipped_first_token:
  assumes "skipped line" "py_split line = cmd # rest"
  shows "startswith cmd ''#'' \<or> startswith cmd ''Test:'' \<or> startswith cmd ''Tags:'' \<or> cmd = ''End''"
proof -
  consider "line = []" | "startswith line ''#''" | "startswith line ''Test:''"
    | "startswith line ''Tags:''" | "line = ''End''"
    using assms(1) unfolding skipped_def by blast
  then show ?thesis
  proof cases
    case 1
    with assms(2) show ?thesis by (simp add: py_split_def)
  next
    case 2
    have "startswith cmd ''#''"
      by (rule first_token_prefix[OF 2 _ _ assms(2)]) (simp_all add: is_space_def)
    then show ?thesis by simp
  next
    case 3
    have "startswith cmd ''Test:''"
      by (rule first_token_prefix[OF 3 _ _ assms(2)]) (simp_all add: is_space_def)
    then show ?thesis by simp
  next
    case 4
    have "startswith cmd ''Tags:''"
      by (rule first_token_prefix[OF 4 _ _ assms(2)]) (simp_all add: is_space_def)
    then show ?thesis by simp
  next
    case 5
    with assms(2) show ?thesis by (simp add: py_split_def is_space_def)
  qed
qed

text \<open>
  Claim C5. A line whose first whitespace-delimited token is one of WaitForPopup,
  SwitchToPopup, ClosePopup, SwitchToIFrame, ReturnFromIFrame, SaveSession, RestoreSession
  and Retry finds its keyword in the dispatch table, and its Step Result is the line,
  the status FAIL and the error \<open>Not implemented: <keyword>\<close>, whatever the rest of the line,
  the session and the snapshot flag are; the session is left as it was.
\<close>

theorem stub_keywords_fail_not_implemented:
  assumes "py_split line = cmd # rest" and "cmd \<in> set stub_keywords"
  shows "cmd \<in> fst ` set (dispatcher B E)
         \<and> execute_step B E p line save_snapshots =
             Inr (Some [(''step'', JStr line), (''status'', JStr ''FAIL''),
                        (''error'', JStr (''Not implemented: '' @ cmd))], p)"
proof -
  have ns: "\<not> skipped line"
    using skipped_first_token[OF _ assms(1)] assms(2) by (auto simp: stub_keywords_def)
  have d: "cmd \<in> fst ` set (dispatcher B E)"
    using assms(2) by (auto simp: stub_keywords_def dispatcher_def)
  have r: "map_of (dispatcher B E) cmd = Some h \<Longrightarrow>
          h p line = Inr ([(''step'', JStr line), (''status'', JStr ''FAIL''),
                        (''error'', JStr (''Not implemented: '' @ cmd))], p)" for h
    using assms(2)
    by (auto simp: stub_keywords_def dispatcher_def fail_result_def dict_lit_def
        handle_waitforpopup_def handle_switchtopopup_def handle_closepopup_def
        handle_switchtoiframe_def handle_returnfromiframe_def handle_savesession_def
        handle_restoresession_def handle_retry_def)
  obtain h where h: "map_of (dispatcher B E) cmd = Some h"
    using d by (metis domD dom_map_of_conv_image_fst)
  show ?thesis
    using ns assms(1) h r[OF h] d by (simp add: execute_step_def)
qed


text \<open>
  Claim C9. A line that is not skipped and whose first whitespace-delimited token is not in
  the supported-command set (which contains Assert) gets the status SYNTAX_ERROR and the
  error \<open>Unknown or malformed: <token>\<close>, a string that names the token.
\<close>

theorem unknown_keyword_syntax_error:
  assumes "\<not> skipped line" and "py_split line = cmd # rest" and "cmd \<notin> set SUPPORTED_COMMANDS"
  shows "execute_step B E p line save_snapshots =
           Inr (Some [(''step'', JStr line), (''status'', JStr ''SYNTAX_ERROR''),
                      (''error'', JStr (''Unknown or malformed: '' @ cmd))], p)"
proof -
  have "cmd \<notin> fst ` set (dispatcher B E)"
    using assms(3) by (auto simp: SUPPORTED_COMMANDS_def dispatcher_def)
  then have n: "map_of (dispatcher B E) cmd = None"
    by (simp add: map_of_eq_None_iff)
  have a: "cmd \<noteq> ''Assert''"
    using assms(3) by (auto simp: SUPPORTED_COMMANDS_def)
  show ?thesis
    using assms n a by (simp add: execute_step_def syntax_error_def dict_lit_def)
qed

lemma keyword_line_split:
  assumes "re_match (Lit kw # Plus Space # rs) line = Some gs"
    and "kw \<noteq> []" "\<forall>c \<in> set kw. \<not> is_space c"
  shows "\<exists>rest. py_split line = kw # rest"
proof -
  from assms(1) have sw: "startswith line kw"
    by (auto simp: re_match_def split: if_splits)
  then obtain r where r: "line = kw @ r" by (auto simp: startswith_append)
  from assms(1) sw r have m: "rx_match (Plus Space # rs) r ([], None) = Some gs"
    by (simp add: re_match_def)
  then obtain x xs where x: "r = x # xs" "is_space x"
    by (cases r) (auto split: if_splits)
  have "py_split line = split_from kw (x # xs)"
    unfolding py_split_def r x(1) using split_from_nonspace[OF assms(3), of "[]" "x # xs"] by simp
  then show ?thesis using x(2) assms(2) by simp
qed

lemma keyword_line_not_skipped:
  assumes "re_match (Lit kw # Plus Space # rs) line = Some gs"
    and "kw \<noteq> []" "\<forall>c \<in> set kw. \<not> is_space c"
    and "\<not> startswith kw ''#''" "\<not> startswith kw ''Test:''" "\<not> startswith kw ''Tags:''" "kw \<noteq> ''End''"
  shows "\<not> skipped line"
proof
  assume s: "skipped line"
  from keyword_line_split[OF assms(1-3)] obtain rest where "py_split line = kw # rest" by blast
  from skipped_first_token[OF s this] assms(4-7) show False by blast
qed



theorem stub_keywords_fail_not_implemented_witness:
  "py_split ''Retry 3 times'' = [''Retry'', ''3'', ''times''] \<and> ''Retry'' \<in> set stub_keywords
   \<and> execute_step demo_engine demo_env demo_page ''Retry 3 times'' False =
        Inr (Some [(''step'', JStr ''Retry 3 times''), (''status'', JStr ''FAIL''),
                   (''error'', JStr ''Not implemented: Retry'')], demo_page)"
proof -
  have a: "py_split ''Retry 3 times'' = ''Retry'' # [''3'', ''times'']"
    by (simp add: eval_simps)
  have b: "''Retry'' \<in> set stub_keywords"
    by (simp add: stub_keywords_def)
  show ?thesis
    using a b stub_keywords_fail_not_implemented[OF a b, of demo_engine demo_env demo_page False]
    by simp
qed

theorem unknown_keyword_syntax_error_witness:
  "\<not> skipped ''Hover over it'' \<and> py_split ''Hover over it'' = [''Hover'', ''over'', ''it'']
   \<and> ''Hover'' \<notin> set SUPPORTED_COMMANDS
   \<and> execute_step demo_engine demo_env demo_page ''Hover over it'' False =
        Inr (Some [(''step'', JStr ''Hover over it''), (''status'', JStr ''SYNTAX_ERROR''),
                   (''error'', JStr ''Unknown or malformed: Hover'')], demo_page)"
proof -
  have a: "\<not> skipped ''Hover over it''"
    by (simp add: eval_simps)
  have b: "py_split ''Hover over it'' = ''Hover'' # [''over'', ''it'']"
    by (simp add: eval_simps)
  have c: "''Hover'' \<notin> set SUPPORTED_COMMANDS"
    by (simp add: SUPPORTED_COMMANDS_def)
  show ?thesis
    using a b c unknown_keyword_syntax_error[OF a b c, of demo_engine demo_env demo_page False]
    by simp
qed



section \<open>Properties of the handlers and of the assertion chain\<close>

text \<open>
  Claim C1. The invariant of the Step Result asks for an \<open>error\<close> field that is null when the
  status is PASS. A SetVar step whose expression evaluates breaks it: the result has the
  status PASS and no \<open>error\<close> field at all (as long as the variable is not itself named
  \<open>status\<close> or \<open>error\<close>), while every other handler writes \<open>"error": None\<close> on success.
\<close>

theorem setvar_success_lacks_error_field:
  assumes "re_match setvar_rx line = Some gs"
    and "pw_evaluate B (group gs 2) (bstate p) = (Inr val, b1)"
    and "group gs 1 \<noteq> ''status''" and "group gs 1 \<noteq> ''error''"
  shows "\<exists>r p1. execute_step B E p line save_snapshots = Inr (Some r, p1)
           \<and> dict_get r ''status'' = Some (JStr ''PASS'')
           \<and> dict_get r ''error'' = None"
proof -
  have k: "re_match (Lit ''SetVar'' # Plus Space # [Lit [CHR 0x22], GOpen, LazyPlus Dot, GClose, Lit [CHR 0x22],
      Star Space, Lit ''='', Star Space, GOpen, Plus Dot, GClose]) line = Some gs"
    using assms(1) by (simp add: setvar_rx_def)
  have ns: "\<not> skipped line"
    by (rule keyword_line_not_skipped[OF k]) (simp_all add: is_space_def)
  obtain rest where sp: "py_split line = ''SetVar'' # rest"
    using keyword_line_split[OF k] by (auto simp: is_space_def)
  have d: "map_of (dispatcher B E) ''SetVar'' = Some (handle_setvar B)"
    by (simp add: dispatcher_def)
  show ?thesis
    using ns sp d assms
    by (simp add: execute_step_def handle_setvar_def Let_def dict_lit_def dict_get_def)
qed

theorem setvar_success_lacks_error_field_witness:
  \<open>re_match setvar_rx ''SetVar "TOTAL" = 1 + 1'' = Some [''TOTAL'', ''1 + 1'']
   \<and> execute_step demo_engine demo_env demo_page ''SetVar "TOTAL" = 1 + 1'' False =
        Inr (Some [(''step'', JStr ''SetVar "TOTAL" = 1 + 1''), (''status'', JStr ''PASS''),
                   (''TOTAL'', JInt 2)],
             demo_page\<lparr>vars := Some [(''TOTAL'', JInt 2)]\<rparr>)
   \<and> (\<exists>r p1. execute_step demo_engine demo_env demo_page ''SetVar "TOTAL" = 1 + 1'' False = Inr (Some r, p1)
           \<and> dict_get r ''status'' = Some (JStr ''PASS'')
           \<and> dict_get r ''error'' = None)\<close>
proof -
  have a: \<open>re_match setvar_rx ''SetVar "TOTAL" = 1 + 1'' = Some [''TOTAL'', ''1 + 1'']\<close>
    by (simp add: eval_simps setvar_rx_def)
  have b: "pw_evaluate demo_engine (group [''TOTAL'', ''1 + 1''] 2) (bstate demo_page) = (Inr (JInt 2), ())"
    by (simp add: demo_simps group_def)
  have c: "group [''TOTAL'', ''1 + 1''] 1 \<noteq> ''status''" "group [''TOTAL'', ''1 + 1''] 1 \<noteq> ''error''"
    by (simp_all add: group_def)
  have e: \<open>execute_step demo_engine demo_env demo_page ''SetVar "TOTAL" = 1 + 1'' False =
        Inr (Some [(''step'', JStr ''SetVar "TOTAL" = 1 + 1''), (''status'', JStr ''PASS''),
                   (''TOTAL'', JInt 2)],
             demo_page\<lparr>vars := Some [(''TOTAL'', JInt 2)]\<rparr>)\<close>
    using a by (simp add: execute_step_def eval_simps dispatcher_def handle_setvar_def demo_simps Let_def)
  from setvar_success_lacks_error_field[OF a b c, of demo_env False] a e
  show ?thesis by simp
qed

lemma each_rx_prefix:
  assumes "re_match each_rx expr = Some gs"
  shows "\<exists>r. expr = ''each attribute '' @ r"
  using assms by (auto simp: re_match_def each_rx_def startswith_append split: if_splits)

lemma page_bstate_same [simp]: "p\<lparr>bstate := bstate p\<rparr> = p"
  by simp

text \<open>
  Claim C3. For an expression of the shape \<open>each attribute attr in elements "sel" matches /pattern/\<close>
  and a variable store that holds a non-empty string under \<open>BASE_URL\<close>, the matcher does not
  expand the placeholder and gives no verdict: it raises \<open>UnboundLocalError\<close> for the
  variable \<open>raw_regex\<close>, and since the chain catches \<open>AssertionError\<close> only, the exception
  leaves \<open>handle_assert\<close>.
\<close>

theorem regex_each_base_url_raises:
  assumes "re_match each_rx expr = Some gs"
    and "vars p = Some d" and "dict_get d ''BASE_URL'' = Some (JStr (c # cs))"
  shows "assert_regex_each B E p expr = (Inl (UnboundLocalError ''raw_regex''), bstate p)
         \<and> handle_assert B E p expr save_snapshots = Inl (UnboundLocalError ''raw_regex'')"
proof -
  have m: "assert_regex_each B E p expr = (Inl (UnboundLocalError ''raw_regex''), bstate p)"
    using assms by (simp add: assert_regex_each_def Let_def)
  obtain r where r: "expr = ''each attribute '' @ r"
    using each_rx_prefix[OF assms(1)] by blast
  have n1: "assert_status p expr = (Inr None, bstate p)"
    by (simp add: r assert_status_def re_match_def status_rx_def)
  have n2: "assert_url B p expr = (Inr None, bstate p)"
    by (simp add: r assert_url_def re_match_def url_rx_def)
  have n3: "assert_exists B p expr = (Inr None, bstate p)"
    by (simp add: r assert_exists_def re_match_def exists_rx_def)
  have n4: "assert_visible B p expr = (Inr None, bstate p)"
    by (simp add: r assert_visible_def re_match_def visible_rx_def)
  have n5: "assert_similar B E p expr = (Inr None, bstate p)"
    by (simp add: r assert_similar_def re_match_def similar_rx_def)
  have n6: "assert_children B p expr = (Inr None, bstate p)"
    by (simp add: r assert_children_def re_match_def children_rx_def)
  have n7: "assert_cls B E p expr = (Inr None, bstate p)"
    by (simp add: r assert_cls_def re_match_def cls_rx_def)
  have n8: "assert_attribute_regex B E p expr = (Inr None, bstate p)"
    by (simp add: r assert_attribute_regex_def re_match_def attribute_rx_def)
  show ?thesis
    using m n1 n2 n3 n4 n5 n6 n7 n8 by (simp add: handle_assert_def handlers_def)
qed

theorem regex_each_base_url_raises_witness:
  \<open>re_match each_rx ''each attribute href in elements "a" matches /<BASE_URL>.*/''
     = Some [''href'', ''a'', ''<BASE_URL>.*'']
   \<and> handle_assert demo_engine demo_env base_url_page
         ''each attribute href in elements "a" matches /<BASE_URL>.*/'' False
       = Inl (UnboundLocalError ''raw_regex'')
   \<and> execute_step demo_engine demo_env base_url_page
         ''Assert each attribute href in elements "a" matches /<BASE_URL>.*/'' False
       = Inl (UnboundLocalError ''raw_regex'')\<close>
proof -
  have a: \<open>re_match each_rx ''each attribute href in elements "a" matches /<BASE_URL>.*/''
     = Some [''href'', ''a'', ''<BASE_URL>.*'']\<close>
    by (simp add: eval_simps each_rx_def)
  have b: "vars base_url_page = Some [(''BASE_URL'', JStr ''https://example.test'')]"
    by (simp add: base_url_page_def)
  have c: "dict_get [(''BASE_URL'', JStr ''https://example.test'')] ''BASE_URL''
           = Some (JStr (CHR ''h'' # ''ttps://example.test''))"
    by (simp add: dict_get_def)
  note h = regex_each_base_url_raises[OF a b c, of demo_engine demo_env False]
  have e: \<open>py_strip (drop (length ''Assert'') ''Assert each attribute href in elements "a" matches /<BASE_URL>.*/'')
      = ''each attribute href in elements "a" matches /<BASE_URL>.*/''\<close>
    by (simp add: eval_simps)
  have f: \<open>execute_step demo_engine demo_env base_url_page
         ''Assert each attribute href in elements "a" matches /<BASE_URL>.*/'' False
       = Inl (UnboundLocalError ''raw_regex'')\<close>
    unfolding execute_step_def using h
    by (simp add: e) (simp add: eval_simps dispatcher_def)
  show ?thesis using a h f by simp
qed

lemma assert_loop_skip:
  "\<forall>g \<in> set pre. g p expr = (Inr None, bstate p) \<Longrightarrow>
     assert_loop B sl snap (pre @ rest) p expr = assert_loop B sl snap rest p expr"
  by (induction pre) auto

lemma visible_fallback_not_none: "fst (visible_fallback B sel b) \<noteq> Inr None"
  by (auto simp: visible_fallback_def split: prod.splits sum.splits)

lemma similarity_verdict_not_none: "fst (similarity_verdict E phrase txt thr extra b) \<noteq> Inr None"
  by (auto simp: similarity_verdict_def Let_def)

lemma none_status: "fst (assert_status p expr) = Inr None \<Longrightarrow> assert_status p expr = (Inr None, bstate p)"
  by (auto simp: assert_status_def Let_def split: option.splits if_splits)

lemma none_url: "fst (assert_url B p expr) = Inr None \<Longrightarrow> assert_url B p expr = (Inr None, bstate p)"
  by (auto simp: assert_url_def Let_def split: option.splits if_splits)

lemma none_exists: "fst (assert_exists B p expr) = Inr None \<Longrightarrow> assert_exists B p expr = (Inr None, bstate p)"
  by (auto simp: assert_exists_def Let_def split: option.splits if_splits prod.splits sum.splits)

lemma none_visible: "fst (assert_visible B p expr) = Inr None \<Longrightarrow> assert_visible B p expr = (Inr None, bstate p)"
  by (auto simp: assert_visible_def Let_def visible_fallback_not_none
      split: option.splits if_splits prod.splits sum.splits)

lemma none_similar: "fst (assert_similar B E p expr) = Inr None \<Longrightarrow> assert_similar B E p expr = (Inr None, bstate p)"
  by (auto simp: assert_similar_def Let_def similarity_verdict_not_none
      split: option.splits if_splits prod.splits sum.splits perr.splits)

lemma none_children: "fst (assert_children B p expr) = Inr None \<Longrightarrow> assert_children B p expr = (Inr None, bstate p)"
  by (auto simp: assert_children_def Let_def split: option.splits if_splits prod.splits sum.splits)

lemma none_cls: "fst (assert_cls B E p expr) = Inr None \<Longrightarrow> assert_cls B E p expr = (Inr None, bstate p)"
  by (auto simp: assert_cls_def Let_def split: option.splits if_splits prod.splits sum.splits jval.splits)

lemma none_attribute_regex:
  "fst (assert_attribute_regex B E p expr) = Inr None \<Longrightarrow> assert_attribute_regex B E p expr = (Inr None, bstate p)"
  by (auto simp: assert_attribute_regex_def Let_def
      split: option.splits if_splits prod.splits sum.splits perr.splits bool.splits)

lemma none_regex_each:
  "fst (assert_regex_each B E p expr) = Inr None \<Longrightarrow> assert_regex_each B E p expr = (Inr None, bstate p)"
  by (auto simp: assert_regex_each_def Let_def
      split: option.splits if_splits prod.splits sum.splits jval.splits list.splits)

lemma none_canonical:
  "fst (assert_canonical B p expr) = Inr None \<Longrightarrow> assert_canonical B p expr = (Inr None, bstate p)"
  by (auto simp: assert_canonical_def Let_def split: option.splits if_splits prod.splits sum.splits)

lemma none_language:
  "fst (assert_language B p expr) = Inr None \<Longrightarrow> assert_language B p expr = (Inr None, bstate p)"
  by (auto simp: assert_language_def Let_def split: option.splits if_splits prod.splits sum.splits)

lemma none_no_duplicates:
  "fst (assert_no_duplicates B p expr) = Inr None \<Longrightarrow> assert_no_duplicates B p expr = (Inr None, bstate p)"
  by (auto simp: assert_no_duplicates_def Let_def split: option.splits if_splits prod.splits sum.splits)

lemma none_keeps_state:
  assumes "h \<in> set (handlers B E)" and "fst (h p expr) = Inr None"
  shows "h p expr = (Inr None, bstate p)"
  using assms
  by (auto simp: handlers_def
      intro: none_status none_url none_exists none_visible none_similar none_children none_cls
        none_attribute_regex none_regex_each none_canonical none_language none_no_duplicates)

lemma save_snapshot_no_assertion_error: "save_snapshot B prefix b \<noteq> (Inl (AssertionError m), b')"
  by (auto simp: save_snapshot_def split: prod.splits sum.splits)

lemma assert_loop_no_assertion_error:
  "assert_loop B sl snap hs p expr \<noteq> Inl (AssertionError m)"
proof (induction hs arbitrary: p)
  case Nil
  show ?case by simp
next
  case (Cons h hs)
  show ?case
    using Cons.IH save_snapshot_no_assertion_error[of B]
    by (auto split: prod.splits sum.splits exn.splits option.splits if_splits)
qed

text \<open>
  What the chain does catch. Let \<open>h\<close> be the first matcher of the chain that recognizes the
  expression (the matchers before it answer \<open>None\<close>), and let it raise an \<open>AssertionError\<close>
  with a message. If snapshots are off, or the capture of the snapshot returns, the chain
  returns a Step Result with the status FAIL and that message as its error. And an
  \<open>AssertionError\<close> never leaves the chain. Every other exception of a matcher, and every
  exception of the capture, does leave it.
\<close>

lemma assertion_error_becomes_fail_result:
  assumes "handlers B E = pre @ h # post"
    and "\<forall>g \<in> set pre. fst (g p expr) = Inr None"
    and "h p expr = (Inl (AssertionError msg), b1)"
    and "\<not> save_snapshots \<or>
         save_snapshot B (''snapshot_'' @ str_nat (clock_ms B b1)) b1 = (Inr (html_file, img_file), b2)"
  shows "(\<exists>r p1. handle_assert B E p expr save_snapshots = Inr (r, p1)
            \<and> p1 = p\<lparr>bstate := (if save_snapshots then b2 else b1)\<rparr>
            \<and> dict_get r ''step'' = Some (JStr (''Assert '' @ expr))
            \<and> dict_get r ''status'' = Some (JStr ''FAIL'')
            \<and> dict_get r ''error'' = Some (JStr msg)
            \<and> (if save_snapshots
                then dict_get r ''snapshot_html'' = Some (JStr html_file)
                     \<and> dict_get r ''snapshot_image'' = Some (JStr img_file)
                else r = fail_result (''Assert '' @ expr) msg))
         \<and> (\<forall>m q x s. handle_assert B E q x s \<noteq> Inl (AssertionError m))"
proof -
  have pre: "\<forall>g \<in> set pre. g p expr = (Inr None, bstate p)"
  proof
    fix g assume g: "g \<in> set pre"
    then have "g \<in> set (handlers B E)" using assms(1) by simp
    from none_keeps_state[OF this] assms(2) g show "g p expr = (Inr None, bstate p)" by blast
  qed
  have e: "handle_assert B E p expr save_snapshots =
           assert_loop B (''Assert '' @ expr) save_snapshots (h # post) p expr"
    unfolding handle_assert_def assms(1) by (rule assert_loop_skip[OF pre])
  have n: "\<forall>m q x s. handle_assert B E q x s \<noteq> Inl (AssertionError m)"
    by (simp add: handle_assert_def assert_loop_no_assertion_error)
  show ?thesis
  proof (cases save_snapshots)
    case True
    with assms(4) have "save_snapshot B (''snapshot_'' @ str_nat (clock_ms B b1)) b1 = (Inr (html_file, img_file), b2)"
      by simp
    with True e assms(3) n show ?thesis
      by (simp add: dict_lit_def dict_get_def)
  next
    case False
    with e assms(3) n show ?thesis
      by (simp add: fail_result_def dict_lit_def dict_get_def)
  qed
qed

lemma assertion_error_becomes_fail_result_example:
  \<open>handlers demo_engine demo_env = [assert_status, assert_url demo_engine] @ assert_exists demo_engine
      # [assert_visible demo_engine, assert_similar demo_engine demo_env, assert_children demo_engine,
         assert_cls demo_engine demo_env, assert_attribute_regex demo_engine demo_env,
         assert_regex_each demo_engine demo_env, assert_canonical demo_engine,
         assert_language demo_engine, assert_no_duplicates demo_engine]
   \<and> fst (assert_status demo_page ''element "div#missing" exists'') = Inr None
   \<and> fst (assert_url demo_engine demo_page ''element "div#missing" exists'') = Inr None
   \<and> assert_exists demo_engine demo_page ''element "div#missing" exists''
       = (Inl (AssertionError ''div#missing not found''), ())
   \<and> handle_assert demo_engine demo_env demo_page ''element "div#missing" exists'' False
       = Inr ([(''step'', JStr ''Assert element "div#missing" exists''), (''status'', JStr ''FAIL''),
               (''error'', JStr ''div#missing not found'')], demo_page)\<close>
proof -
  have a: \<open>handlers demo_engine demo_env = [assert_status, assert_url demo_engine] @ assert_exists demo_engine
      # [assert_visible demo_engine, assert_similar demo_engine demo_env, assert_children demo_engine,
         assert_cls demo_engine demo_env, assert_attribute_regex demo_engine demo_env,
         assert_regex_each demo_engine demo_env, assert_canonical demo_engine,
         assert_language demo_engine, assert_no_duplicates demo_engine]\<close>
    by (simp add: handlers_def)
  have b1: \<open>fst (assert_status demo_page ''element "div#missing" exists'') = Inr None\<close>
    by (simp add: assert_status_def status_rx_def eval_simps)
  have b2: \<open>fst (assert_url demo_engine demo_page ''element "div#missing" exists'') = Inr None\<close>
    by (simp add: assert_url_def url_rx_def eval_simps)
  have b: \<open>\<forall>g \<in> set [assert_status, assert_url demo_engine].
              fst (g demo_page ''element "div#missing" exists'') = Inr None\<close>
    using b1 b2 by simp
  have c: \<open>assert_exists demo_engine demo_page ''element "div#missing" exists''
       = (Inl (AssertionError ''div#missing not found''), ())\<close>
    by (simp add: assert_exists_def exists_rx_def eval_simps demo_simps)
  have d: "\<not> False \<or> save_snapshot demo_engine (''snapshot_'' @ str_nat (clock_ms demo_engine ())) ()
             = (Inr ([], []), ())"
    by simp
  from assertion_error_becomes_fail_result[OF a b c d]
  have \<open>handle_assert demo_engine demo_env demo_page ''element "div#missing" exists'' False
       = Inr (fail_result ''Assert element "div#missing" exists'' ''div#missing not found'', demo_page)\<close>
    by (auto simp: demo_page_def)
  then show ?thesis using a b1 b2 c by (simp add: fail_result_def dict_lit_def)
qed


section \<open>A failure of a matcher that the chain does not catch\<close>

text \<open>
  Claim C2. The claim asks that no runtime failure of a matcher that recognized the
  expression leaves the chain. The code does not do this: \<open>handle_assert\<close> catches
  \<open>AssertionError\<close> only. For the expression \<open>canonical href equals page.url\<close>, recognized by
  \<open>assert_canonical\<close>, an error of the engine while the \<open>href\<close> of the canonical link is read
  (the timeout on a page without such a link) leaves the matcher, \<open>handle_assert\<close> and
  \<open>execute_step\<close> as it is, whatever the snapshot flag: no Step Result is produced. The
  matchers \<open>assert_similar\<close> and \<open>assert_attribute_regex\<close> do turn the timeout of the same
  kind of read into an \<open>AssertionError\<close>, hence into a FAIL result, as the example after
  the theorem shows.
\<close>

theorem canonical_read_error_leaves_chain:
  assumes "pw_first_get_attribute B (''link[rel='' @ sq @ ''canonical'' @ sq @ '']'') ''href'' (bstate p)
             = (Inl e, b1)"
  shows "assert_canonical B p ''canonical href equals page.url'' = (Inl (Playwright e), b1)
         \<and> handle_assert B E p ''canonical href equals page.url'' save_snapshots = Inl (Playwright e)
         \<and> execute_step B E p ''Assert canonical href equals page.url'' save_snapshots
             = Inl (Playwright e)"
proof -
  let ?x = "''canonical href equals page.url''"
  have m: "assert_canonical B p ?x = (Inl (Playwright e), b1)"
    using assms by (simp add: assert_canonical_def py_strip_def is_space_def)
  have n1: "assert_status p ?x = (Inr None, bstate p)"
    by (simp add: assert_status_def re_match_def status_rx_def)
  have n2: "assert_url B p ?x = (Inr None, bstate p)"
    by (simp add: assert_url_def re_match_def url_rx_def)
  have n3: "assert_exists B p ?x = (Inr None, bstate p)"
    by (simp add: assert_exists_def re_match_def exists_rx_def)
  have n4: "assert_visible B p ?x = (Inr None, bstate p)"
    by (simp add: assert_visible_def re_match_def visible_rx_def)
  have n5: "assert_similar B E p ?x = (Inr None, bstate p)"
    by (simp add: assert_similar_def re_match_def similar_rx_def)
  have n6: "assert_children B p ?x = (Inr None, bstate p)"
    by (simp add: assert_children_def re_match_def children_rx_def)
  have n7: "assert_cls B E p ?x = (Inr None, bstate p)"
    by (simp add: assert_cls_def re_match_def cls_rx_def)
  have n8: "assert_attribute_regex B E p ?x = (Inr None, bstate p)"
    by (simp add: assert_attribute_regex_def re_match_def attribute_rx_def)
  have n9: "assert_regex_each B E p ?x = (Inr None, bstate p)"
    by (simp add: assert_regex_each_def re_match_def each_rx_def)
  have h: "handle_assert B E p ?x save_snapshots = Inl (Playwright e)"
    using m n1 n2 n3 n4 n5 n6 n7 n8 n9 by (simp add: handle_assert_def handlers_def)
  have s: "py_strip (drop (length ''Assert'') ''Assert canonical href equals page.url'') = ?x"
    by (simp add: py_strip_def is_space_def)
  have sk: "\<not> skipped ''Assert canonical href equals page.url''"
    by (simp add: skipped_def)
  have sp: "py_split ''Assert canonical href equals page.url''
            = [''Assert'', ''canonical'', ''href'', ''equals'', ''page.url'']"
    by (simp add: py_split_def is_space_def)
  have d: "map_of (dispatcher B E) ''Assert'' = None"
    by (simp add: dispatcher_def)
  have x: "execute_step B E p ''Assert canonical href equals page.url'' save_snapshots
             = Inl (Playwright e)"
    unfolding execute_step_def using sk sp d h s by simp
  show ?thesis using m h x by simp
qed

theorem canonical_read_error_leaves_chain_witness:
  \<open>pw_first_get_attribute timeout_engine (''link[rel='' @ sq @ ''canonical'' @ sq @ '']'') ''href''
      (bstate demo_page) = (Inl (PlaywrightTimeoutError ''Timeout 30000ms exceeded''), ())
   \<and> execute_step timeout_engine demo_env demo_page ''Assert canonical href equals page.url'' False
       = Inl (Playwright (PlaywrightTimeoutError ''Timeout 30000ms exceeded''))
   \<and> execute_step timeout_engine demo_env demo_page ''Assert canonical href equals page.url'' True
       = Inl (Playwright (PlaywrightTimeoutError ''Timeout 30000ms exceeded''))
   \<and> execute_step timeout_engine demo_env demo_page ''Assert attribute link@href matches /x/'' False
       = Inr (Some [(''step'', JStr ''Assert attribute link@href matches /x/''),
                    (''status'', JStr ''FAIL''),
                    (''error'', JStr (''Could not read attribute '' @ sq @ ''href'' @ sq
                                       @ '' from link: timed out''))],
              demo_page)\<close>
proof -
  have a: \<open>pw_first_get_attribute timeout_engine (''link[rel='' @ sq @ ''canonical'' @ sq @ '']'') ''href''
      (bstate demo_page) = (Inl (PlaywrightTimeoutError ''Timeout 30000ms exceeded''), ())\<close>
    by (simp add: timeout_engine_def demo_simps)
  have b: \<open>execute_step timeout_engine demo_env demo_page ''Assert attribute link@href matches /x/'' False
       = Inr (Some [(''step'', JStr ''Assert attribute link@href matches /x/''),
                    (''status'', JStr ''FAIL''),
                    (''error'', JStr (''Could not read attribute '' @ sq @ ''href'' @ sq
                                       @ '' from link: timed out''))],
              demo_page)\<close>
    by (simp add: execute_step_def eval_simps dispatcher_def handle_assert_def handlers_def
        assert_status_def assert_url_def assert_exists_def assert_visible_def assert_similar_def
        assert_children_def assert_cls_def assert_attribute_regex_def
        status_rx_def url_rx_def exists_rx_def visible_rx_def similar_rx_def children_rx_def
        cls_rx_def attribute_rx_def fail_result_def timeout_engine_def demo_simps sq_def Let_def)
  from canonical_read_error_leaves_chain[OF a, of demo_env] a b
  show ?thesis by simp
qed


section \<open>Tags\<close>

lemma dict_set_nonempty: "dict_set k v d \<noteq> []"
  by (cases d) (auto split: if_splits)

lemma foldl_dict_set_nonempty:
  "d \<noteq> [] \<Longrightarrow> foldl (\<lambda>d (k, v). dict_set k v d) d kvs \<noteq> []"
  by (induction kvs arbitrary: d) (auto simp: dict_set_nonempty split: prod.splits)

lemma dict_lit_nonempty: "dict_lit (kv # kvs) \<noteq> []"
  unfolding dict_lit_def by (cases kv) (simp add: foldl_dict_set_nonempty dict_set_nonempty)

lemma dict_get_dict_set: "dict_get (dict_set k v d) k = Some v"
  unfolding dict_get_def by (induction d) auto

lemma result_shapes_nonempty:
  "pass_result line \<noteq> []" "fail_result line msg \<noteq> []" "syntax_error line msg \<noteq> []"
  by (simp_all add: pass_result_def fail_result_def syntax_error_def dict_lit_nonempty)

lemma handler_result_nonempty:
  assumes "map_of (dispatcher B E) cmd = Some h" and "h p line = Inr (d, p1)"
  shows "d \<noteq> []"
proof -
  have "(cmd, h) \<in> set (dispatcher B E)" using assms(1) by (rule map_of_SomeD)
  then consider "h = handle_goto B E" | "h = handle_click B" | "h = handle_fill B"
    | "h = handle_fillauto B" | "h = handle_waitfor B" | "h = handle_scrollto B"
    | "h = handle_assertcookie B" | "h = handle_viewport B" | "h = handle_setvar B"
    | "h \<in> {handle_waitforpopup, handle_switchtopopup, handle_closepopup, handle_switchtoiframe,
            handle_returnfromiframe, handle_savesession, handle_restoresession, handle_retry}"
    by (auto simp: dispatcher_def)
  then show ?thesis
  proof cases
    case 1
    with assms(2) show ?thesis
      by (auto simp: handle_goto_def Let_def result_shapes_nonempty dict_lit_nonempty
          split: option.splits prod.splits sum.splits)
  next
    case 2
    with assms(2) show ?thesis
      by (auto simp: handle_click_def result_shapes_nonempty split: option.splits prod.splits sum.splits)
  next
    case 3
    with assms(2) show ?thesis
      by (auto simp: handle_fill_def result_shapes_nonempty split: option.splits prod.splits sum.splits)
  next
    case 4
    with assms(2) show ?thesis
      by (auto simp: handle_fillauto_def result_shapes_nonempty split: option.splits prod.splits sum.splits)
  next
    case 5
    with assms(2) show ?thesis
      by (auto simp: handle_waitfor_def result_shapes_nonempty split: option.splits prod.splits sum.splits)
  next
    case 6
    with assms(2) show ?thesis
      by (auto simp: handle_scrollto_def result_shapes_nonempty split: option.splits prod.splits sum.splits)
  next
    case 7
    with assms(2) show ?thesis
      by (auto simp: handle_assertcookie_def Let_def result_shapes_nonempty
          split: option.splits prod.splits sum.splits if_splits)
  next
    case 8
    with assms(2) show ?thesis
      by (auto simp: handle_viewport_def Let_def result_shapes_nonempty
          split: option.splits prod.splits sum.splits)
  next
    case 9
    with assms(2) show ?thesis
      by (auto simp: handle_setvar_def Let_def result_shapes_nonempty dict_lit_nonempty
          split: option.splits prod.splits sum.splits)
  next
    case 10
    with assms(2) show ?thesis
      by (auto simp: handle_waitforpopup_def handle_switchtopopup_def handle_closepopup_def
          handle_switchtoiframe_def handle_returnfromiframe_def handle_savesession_def
          handle_restoresession_def handle_retry_def result_shapes_nonempty)
  qed
qed

lemma assert_loop_result_nonempty:
  "assert_loop B sl snap hs p expr = Inr (d, p1) \<Longrightarrow> d \<noteq> []"
proof (induction hs arbitrary: p)
  case Nil
  then show ?case by (auto simp: result_shapes_nonempty)
next
  case (Cons h hs)
  obtain x b1 where hx: "h p expr = (x, b1)" by (cases "h p expr")
  show ?case
  proof (cases x)
    case (Inl e)
    show ?thesis
    proof (cases "\<exists>m. e = AssertionError m")
      case True
      then obtain m where m: "e = AssertionError m" by blast
      show ?thesis
      proof (cases snap)
        case True
        with Cons.prems hx Inl m show ?thesis
          by (auto simp: dict_lit_nonempty split: prod.splits sum.splits)
      next
        case False
        with Cons.prems hx Inl m show ?thesis
          by (auto simp: result_shapes_nonempty)
      qed
    next
      case False
      then have "assert_loop B sl snap (h # hs) p expr = Inl e"
        using hx Inl by (cases e) auto
      with Cons.prems show ?thesis by simp
    qed
  next
    case (Inr v)
    show ?thesis
    proof (cases v)
      case None
      with Cons.prems hx Inr have "assert_loop B sl snap hs (p\<lparr>bstate := b1\<rparr>) expr = Inr (d, p1)"
        by simp
      from Cons.IH[OF this] show ?thesis .
    next
      case (Some res)
      with Cons.prems hx Inr show ?thesis
        by (auto simp: dict_lit_nonempty)
    qed
  qed
qed

lemma execute_step_result:
  assumes "\<not> skipped line" and "execute_step B E p line snap = Inr (r, p1)"
  shows "\<exists>step. r = Some step \<and> step \<noteq> []"
proof (cases "py_split line")
  case Nil
  have "execute_step B E p line snap = Inl (IndexError ''list index out of range'')"
    unfolding execute_step_def using assms(1) Nil by simp
  with assms(2) show ?thesis by simp
next
  case (Cons cmd rest)
  show ?thesis
  proof (cases "map_of (dispatcher B E) cmd")
    case (Some h)
    have e: "execute_step B E p line snap =
             (case h p line of Inl e \<Rightarrow> Inl e | Inr (r, p1) \<Rightarrow> Inr (Some r, p1))"
      unfolding execute_step_def using assms(1) Cons Some by simp
    obtain d where d: "h p line = Inr (d, p1)" "r = Some d"
      using assms(2) unfolding e by (cases "h p line") auto
    from handler_result_nonempty[OF Some d(1)] d(2) show ?thesis by simp
  next
    case None
    show ?thesis
    proof (cases "cmd = ''Assert''")
      case True
      have e: "execute_step B E p line snap =
             (case handle_assert B E p (py_strip (drop (length ''Assert'') line)) snap of
                Inl e \<Rightarrow> Inl e | Inr (r, p1) \<Rightarrow> Inr (Some r, p1))"
        unfolding execute_step_def using assms(1) Cons None True by simp
      obtain d where
        d: "handle_assert B E p (py_strip (drop (length ''Assert'') line)) snap = Inr (d, p1)" "r = Some d"
        using assms(2) unfolding e
        by (cases "handle_assert B E p (py_strip (drop (length ''Assert'') line)) snap") auto
      from assert_loop_result_nonempty[OF d(1)[unfolded handle_assert_def]] d(2) show ?thesis by simp
    next
      case False
      define m where "m = (if cmd \<notin> set SUPPORTED_COMMANDS then ''Unknown or malformed: '' @ cmd
                           else ''Not implemented: '' @ cmd)"
      have "execute_step B E p line snap = Inr (Some (syntax_error line m), p)"
        unfolding execute_step_def m_def using assms(1) Cons None False by simp
      with assms(2) have "r = Some (syntax_error line m)" by simp
      then show ?thesis using result_shapes_nonempty(3) by blast
    qed
  qed
qed

text \<open>
  Claim C7. Within one run of a device, every Step Result that the run appends is stamped
  with the tags active at its line: the words of the last \<open>Tags:\<close> line before it, or the
  tags the run started with when there is none. The run of the source agrees, result by
  result and in order, with \<open>active_tags\<close>, the reading of the specification; the witness
  is a script with three steps after \<open>Tags: smoke regression\<close> and two after
  \<open>Tags: extended\<close>. The hypothesis is that the run returns, that is, that no exception
  leaves a step.
\<close>

theorem results_carry_active_tags:
  assumes "run_lines B E save_snapshots raws p tags results = Inr (results', p')"
  shows "\<exists>new. results' = results @ new
           \<and> map (\<lambda>r. dict_get r ''tags'') new
               = map (\<lambda>(tg, line). Some (JList (map JStr tg))) (active_tags tags raws)"
  using assms
proof (induction raws arbitrary: p tags results)
  case Nil
  then show ?case by simp
next
  case (Cons raw raws)
  define line where "line = py_strip raw"
  show ?case
  proof (cases "startswith line ''Tags:''")
    case True
    with Cons.prems have "run_lines B E save_snapshots raws p (findall_words (drop (length ''Tags:'') line)) results = Inr (results', p')"
      by (simp add: line_def Let_def)
    from Cons.IH[OF this] True show ?thesis by (simp add: line_def Let_def)
  next
    case nt: False
    show ?thesis
    proof (cases "line = [] \<or> startswith line ''Test:'' \<or> line = ''End'' \<or> startswith line ''#''")
      case True
      with nt Cons.prems have "run_lines B E save_snapshots raws p tags results = Inr (results', p')"
        by (simp add: line_def Let_def)
      from Cons.IH[OF this] True nt show ?thesis by (auto simp add: line_def Let_def)
    next
      case False
      with nt have ns: "\<not> skipped line" by (auto simp: skipped_def)
      from Cons.prems nt False obtain r p1 where
        e: "execute_step B E p line save_snapshots = Inr (r, p1)"
        by (auto simp: line_def Let_def split: sum.splits)
      from execute_step_result[OF ns e] obtain step where s: "r = Some step" "step \<noteq> []" by blast
      have "run_lines B E save_snapshots raws p1 tags
              (results @ [dict_set ''tags'' (JList (map JStr tags)) step]) = Inr (results', p')"
        using Cons.prems nt False e s by (simp add: line_def Let_def)
      from Cons.IH[OF this] obtain new where
        n: "results' = (results @ [dict_set ''tags'' (JList (map JStr tags)) step]) @ new"
           "map (\<lambda>r. dict_get r ''tags'') new
              = map (\<lambda>(tg, line). Some (JList (map JStr tg))) (active_tags tags raws)"
        by blast
      show ?thesis
        apply (rule exI[of _ "dict_set ''tags'' (JList (map JStr tags)) step # new"])
        using n nt False by (auto simp: line_def Let_def dict_get_dict_set)
    qed
  qed
qed

theorem results_carry_active_tags_witness:
  "\<exists>results p1.
      run_lines demo_engine demo_env False demo_script demo_page [] [] = Inr (results, p1)
      \<and> map (\<lambda>r. dict_get r ''tags'') results =
            [Some (JList [JStr ''smoke'', JStr ''regression'']),
             Some (JList [JStr ''smoke'', JStr ''regression'']),
             Some (JList [JStr ''smoke'', JStr ''regression'']),
             Some (JList [JStr ''extended'']),
             Some (JList [JStr ''extended''])]
      \<and> map (\<lambda>r. dict_get r ''status'') results =
            [Some (JStr ''PASS''), Some (JStr ''PASS''), Some (JStr ''PASS''), Some (JStr ''PASS''),
             Some (JStr ''FAIL'')]"
proof -
  have r: \<open>run_lines demo_engine demo_env False demo_script demo_page [] [] =
     Inr ([[(''step'', JStr ''Click "a"''), (''status'', JStr ''PASS''), (''error'', JNull),
            (''tags'', JList [JStr ''smoke'', JStr ''regression''])],
           [(''step'', JStr ''WaitFor "h1"''), (''status'', JStr ''PASS''), (''error'', JNull),
            (''tags'', JList [JStr ''smoke'', JStr ''regression''])],
           [(''step'', JStr ''ScrollTo "h1"''), (''status'', JStr ''PASS''), (''error'', JNull),
            (''tags'', JList [JStr ''smoke'', JStr ''regression''])],
           [(''step'', JStr ''Viewport 800x600''), (''status'', JStr ''PASS''), (''error'', JNull),
            (''tags'', JList [JStr ''extended''])],
           [(''step'', JStr ''Retry''), (''status'', JStr ''FAIL''),
            (''error'', JStr ''Not implemented: Retry''), (''tags'', JList [JStr ''extended''])]],
          demo_page)\<close>
    by (simp add: demo_script_def eval_simps demo_simps execute_step_def dispatcher_def
        handle_click_def handle_waitfor_def handle_scrollto_def handle_viewport_def handle_retry_def
        quoted_rx_def viewport_rx_def pass_result_def fail_result_def wait_after_action_def
        int_of_digits_def digit_val_def findall_words_def Let_def)
  have t: \<open>active_tags [] demo_script =
             [([''smoke'', ''regression''], ''Click "a"''),
              ([''smoke'', ''regression''], ''WaitFor "h1"''),
              ([''smoke'', ''regression''], ''ScrollTo "h1"''),
              ([''extended''], ''Viewport 800x600''),
              ([''extended''], ''Retry'')]\<close>
    by (simp add: demo_script_def eval_simps findall_words_def Let_def)
  from results_carry_active_tags[OF r] show ?thesis
    unfolding t r by (simp add: dict_get_def)
qed


section \<open>Substitution of the declared variables\<close>

lemma startswith_mono: "startswith s p \<Longrightarrow> startswith (s @ t) p"
  by (induction s p rule: startswith.induct) auto

lemma startswith_length: "startswith s p \<Longrightarrow> length p \<le> length s"
  by (induction s p rule: startswith.induct) auto

lemma startswith_cut:
  "c \<notin> set ps \<Longrightarrow> startswith (xs @ c # b) ps \<Longrightarrow> startswith xs ps"
proof (induction xs arbitrary: ps)
  case Nil
  then show ?case by (cases ps) auto
next
  case (Cons y ys)
  then show ?case by (cases ps) auto
qed

lemma replace_from_unchanged:
  "\<not> contains t pat \<Longrightarrow> replace_from t pat v = t"
  by (induction t pat v rule: replace_from.induct) auto

lemma replace_from_barrier:
  assumes "c \<notin> set ps"
  shows "replace_from (a @ c # b) (q # ps) v = replace_from a (q # ps) v @ replace_from (c # b) (q # ps) v"
proof (induction a "q # ps" v rule: replace_from.induct)
  case (1 new)
  show ?case by simp
next
  case (2 x xs new)
  define R where "R = replace_from (c # b) (q # ps) new"
  show ?case
  proof (cases "startswith (x # xs @ c # b) (q # ps)")
    case True
    then have xq: "x = q" and t: "startswith (xs @ c # b) ps" by auto
    from startswith_cut[OF assms t] have s: "startswith xs ps" .
    then have l: "length ps \<le> length xs" by (rule startswith_length)
    have ih: "replace_from (drop (length ps) xs @ c # b) (q # ps) new
          = replace_from (drop (length ps) xs) (q # ps) new @ R"
      using "2.hyps"(1) xq s by (simp add: R_def)
    have lhs: "replace_from ((x # xs) @ c # b) (q # ps) new
               = new @ replace_from (drop (length ps) xs @ c # b) (q # ps) new"
      using True l by simp
    have rhs: "replace_from (x # xs) (q # ps) new
               = new @ replace_from (drop (length ps) xs) (q # ps) new"
      using xq s by simp
    show ?thesis
      unfolding R_def[symmetric] lhs rhs ih by simp
  next
    case False
    then have n: "\<not> startswith (x # xs) (q # ps)"
      using startswith_mono[of "x # xs" "q # ps" "c # b"] by auto
    have ih: "replace_from (xs @ c # b) (q # ps) new = replace_from xs (q # ps) new @ R"
      using "2.hyps"(2) n by (simp add: R_def)
    have lhs: "replace_from ((x # xs) @ c # b) (q # ps) new
               = x # replace_from (xs @ c # b) (q # ps) new"
      using False by auto
    have rhs: "replace_from (x # xs) (q # ps) new = x # replace_from xs (q # ps) new"
      using n by auto
    show ?thesis
      unfolding R_def[symmetric] lhs rhs ih by simp
  qed
qed

lemma replace_from_skip:
  "q \<notin> set w \<Longrightarrow> replace_from (w @ r) (q # ps) v = w @ replace_from r (q # ps) v"
  by (induction w) auto

lemma startswith_same_name:
  "CHR ''>'' \<notin> set u \<Longrightarrow> CHR ''>'' \<notin> set k \<Longrightarrow> startswith (u @ CHR ''>'' # r) (k @ ''>'') \<Longrightarrow> k = u"
proof (induction u arbitrary: k)
  case Nil
  then show ?case by (cases k) auto
next
  case (Cons a u)
  then show ?case by (cases k) auto
qed

lemma replace_placeholder_occurrence:
  assumes "CHR ''<'' \<notin> set k"
  shows "py_replace (pre @ placeholder k @ post) (placeholder k) v
         = py_replace pre (placeholder k) v @ v @ py_replace post (placeholder k) v"
proof -
  have p: "placeholder k = CHR ''<'' # (k @ ''>'')" by (simp add: placeholder_def)
  have c: "CHR ''<'' \<notin> set (k @ ''>'')" using assms by simp
  have s: "startswith (CHR ''<'' # (k @ ''>'') @ post) (CHR ''<'' # (k @ ''>''))"
    by (simp add: startswith_append)
  have "replace_from (CHR ''<'' # (k @ ''>'') @ post) (CHR ''<'' # (k @ ''>'')) v
        = v @ replace_from post (CHR ''<'' # (k @ ''>'')) v"
    using s by simp
  then show ?thesis
    unfolding py_replace_def p using replace_from_barrier[OF c, where a = pre and b = "(k @ ''>'') @ post" and v = v and q = "CHR ''<''"]
    by simp
qed

lemma replace_other_placeholder:
  assumes "bracket_free k" "bracket_free u" "k \<noteq> u"
  shows "py_replace (pre @ placeholder u @ post) (placeholder k) v
         = py_replace pre (placeholder k) v @ placeholder u @ py_replace post (placeholder k) v"
proof -
  let ?pat = "CHR ''<'' # (k @ ''>'')"
  have p: "placeholder k = ?pat" "placeholder u = CHR ''<'' # (u @ ''>'')"
    by (simp_all add: placeholder_def)
  have c: "CHR ''<'' \<notin> set (k @ ''>'')" using assms(1) by (simp add: bracket_free_def)
  have n: "\<not> startswith (CHR ''<'' # (u @ ''>'') @ post) ?pat"
    using startswith_same_name[of u k post] assms by (auto simp: bracket_free_def)
  have w: "CHR ''<'' \<notin> set (u @ ''>'')" using assms(2) by (simp add: bracket_free_def)
  have "replace_from (CHR ''<'' # (u @ ''>'') @ post) ?pat v
        = CHR ''<'' # replace_from ((u @ ''>'') @ post) ?pat v"
    using n by simp
  also have "\<dots> = CHR ''<'' # (u @ ''>'') @ replace_from post ?pat v"
    using replace_from_skip[OF w, where r = post and ps = "k @ ''>''" and v = v] by simp
  finally have m: "replace_from (CHR ''<'' # (u @ ''>'') @ post) ?pat v
        = CHR ''<'' # (u @ ''>'') @ replace_from post ?pat v" .
  show ?thesis
    unfolding py_replace_def p using replace_from_barrier[OF c, where a = pre and b = "(u @ ''>'') @ post" and v = v and q = "CHR ''<''"] m
    by simp
qed

lemma substitute_Cons:
  "substitute ((k, v) # vs) content = substitute vs (py_replace content (placeholder k) v)"
  by (simp add: substitute_def placeholder_def)

lemma substitute_undeclared:
  assumes "\<forall>n \<in> fst ` set vs. bracket_free n" "bracket_free u" "u \<notin> fst ` set vs"
  shows "substitute vs (pre @ placeholder u @ post)
         = substitute vs pre @ placeholder u @ substitute vs post"
  using assms
proof (induction vs arbitrary: pre post)
  case Nil
  show ?case by (simp add: substitute_def)
next
  case (Cons kv vs)
  obtain k v where kv: "kv = (k, v)" by (cases kv)
  have k: "bracket_free k" "k \<noteq> u" using Cons.prems kv by auto
  have r: "\<forall>n \<in> fst ` set vs. bracket_free n" "u \<notin> fst ` set vs" using Cons.prems by auto
  show ?case
    unfolding kv substitute_Cons replace_other_placeholder[OF k(1) Cons.prems(2) k(2)]
    by (rule Cons.IH[OF r(1) Cons.prems(2) r(2)])
qed

lemma substitute_unchanged:
  assumes "\<forall>n \<in> fst ` set vs. \<not> contains content (placeholder n)"
  shows "substitute vs content = content"
  using assms
proof (induction vs)
  case Nil
  show ?case by (simp add: substitute_def)
next
  case (Cons kv vs)
  obtain k v where kv: "kv = (k, v)" by (cases kv)
  have "py_replace content (placeholder k) v = content"
    using Cons.prems kv by (simp add: py_replace_def placeholder_def replace_from_unchanged)
  then show ?case
    unfolding kv substitute_Cons using Cons by simp
qed

text \<open>
  Claim C8, as amended. The substitution treats the declared variables one after the
  other, in the order of their declaration, each pass working on the text the passes
  before it left (so a placeholder that a value brings in is itself replaced by a later
  variable). A pass replaces every occurrence of its placeholder by the value (the name
  has no \<open><\<close>). The placeholder of an undeclared name is left intact by the whole
  substitution, the names having no angle brackets. A pass whose placeholder does not occur
  in the text leaves the text unchanged, and so does the whole substitution when no
  declared placeholder occurs.
\<close>

theorem substitution_pass_by_pass:
  "substitute ((k, v) # vs) content = substitute vs (py_replace content (placeholder k) v)
   \<and> (CHR ''<'' \<notin> set k \<longrightarrow>
        py_replace (pre @ placeholder k @ post) (placeholder k) v
          = py_replace pre (placeholder k) v @ v @ py_replace post (placeholder k) v)
   \<and> ((\<forall>n \<in> fst ` set vs. bracket_free n) \<and> bracket_free u \<and> u \<notin> fst ` set vs \<longrightarrow>
        substitute vs (pre @ placeholder u @ post)
          = substitute vs pre @ placeholder u @ substitute vs post)
   \<and> (\<not> contains content (placeholder k) \<longrightarrow> py_replace content (placeholder k) v = content)
   \<and> ((\<forall>n \<in> fst ` set vs. \<not> contains content (placeholder n)) \<longrightarrow> substitute vs content = content)"
proof (intro conjI impI)
  show "substitute ((k, v) # vs) content = substitute vs (py_replace content (placeholder k) v)"
    by (rule substitute_Cons)
next
  assume "CHR ''<'' \<notin> set k"
  then show "py_replace (pre @ placeholder k @ post) (placeholder k) v
          = py_replace pre (placeholder k) v @ v @ py_replace post (placeholder k) v"
    by (rule replace_placeholder_occurrence)
next
  assume "(\<forall>n \<in> fst ` set vs. bracket_free n) \<and> bracket_free u \<and> u \<notin> fst ` set vs"
  then show "substitute vs (pre @ placeholder u @ post)
          = substitute vs pre @ placeholder u @ substitute vs post"
    using substitute_undeclared by blast
next
  assume "\<not> contains content (placeholder k)"
  then show "py_replace content (placeholder k) v = content"
    by (simp add: py_replace_def placeholder_def replace_from_unchanged)
next
  assume "\<forall>n \<in> fst ` set vs. \<not> contains content (placeholder n)"
  then show "substitute vs content = content"
    by (rule substitute_unchanged)
qed

text \<open>
  The statement as first written, that every placeholder of the script ends as the
  declared value of its name, fails when a value contains the placeholder of a variable
  declared after it; with the declarations in the other order it holds.
\<close>

theorem substitution_chained_counterexample:
  "substitute [(''A'', ''<B>''), (''B'', ''x'')] ''<A>'' = ''x''
   \<and> substitute [(''A'', ''<B>''), (''B'', ''x'')] ''<A>'' \<noteq> ''<B>''
   \<and> substitute [(''B'', ''x''), (''A'', ''<B>'')] ''<A>'' = ''<B>''"
  by (simp add: substitute_def py_replace_def)

theorem substitution_pass_by_pass_witness:
  \<open>CHR ''<'' \<notin> set ''HOST'' \<and> bracket_free ''HOST'' \<and> bracket_free ''PATH''
   \<and> ''PATH'' \<notin> fst ` set [(''HOST'', ''example.test'')]
   \<and> \<not> contains ''Goto "https://<HOST>/<PATH>"'' (placeholder ''PORT'')
   \<and> substitute [(''HOST'', ''example.test'')] ''Goto "https://<HOST>/<PATH>"''
       = ''Goto "https://example.test/<PATH>"''
   \<and> substitute [(''HOST'', ''example.test'')] (''Goto "https://<HOST>/'' @ placeholder ''PATH'' @ ''"'')
       = substitute [(''HOST'', ''example.test'')] ''Goto "https://<HOST>/'' @ placeholder ''PATH''
         @ substitute [(''HOST'', ''example.test'')] ''"''
   \<and> py_replace ''Goto "https://<HOST>/<PATH>"'' (placeholder ''PORT'') ''8080''
       = ''Goto "https://<HOST>/<PATH>"''\<close>
proof -
  note t = substitution_pass_by_pass[where k = "''PORT''" and v = "''8080''"
      and vs = "[(''HOST'', ''example.test'')]" and u = "''PATH''"
      and pre = \<open>''Goto "https://<HOST>/''\<close> and post = \<open>''"''\<close>
      and content = \<open>''Goto "https://<HOST>/<PATH>"''\<close>]
  have a: "bracket_free ''HOST''" "bracket_free ''PATH''"
    by (simp_all add: bracket_free_def)
  have b: \<open>\<not> contains ''Goto "https://<HOST>/<PATH>"'' (placeholder ''PORT'')\<close>
    by (simp add: placeholder_def)
  have c: \<open>substitute [(''HOST'', ''example.test'')] ''Goto "https://<HOST>/<PATH>"''
       = ''Goto "https://example.test/<PATH>"''\<close>
    by (simp add: substitute_def py_replace_def)
  from t a b c show ?thesis by simp
qed


section \<open>Text after a command\<close>












lemma fst_push [simp]: "fst (push t c) = fst c"
  by (cases c; cases "snd c") auto



lemma close_quote_step:
  "rx_match [GClose, Lit [CHR 0x22]] (y # ys) (d, cur)
   = (if y = CHR 0x22 then Some (d @ [case cur of None \<Rightarrow> [] | Some t \<Rightarrow> t]) else None)"
  by simp



























































end
